theory Spec2Isabelle
  imports Complex_Main "HOL-Library.Product_Lexorder" "HOL-Library.Log_Nat"
begin

section \<open>The Python runtime the planner relies on\<close>

text \<open>
  The planner is written in Python. Exceptions are values of \<open>error\<close>; a function that
  can raise returns \<open>error + 'a\<close> with \<open>Inl\<close> the exception. Python integers are \<open>int\<close>.
\<close>

datatype error = ValueError | OverflowError | ZeroDivisionError

subsection \<open>Strings\<close>

text \<open>
  \<open>str.lower()\<close> on the ASCII letters; every other character is left as it is.
\<close>

definition lower_char :: "char \<Rightarrow> char" where
  "lower_char c =
     (case map_of (zip ''ABCDEFGHIJKLMNOPQRSTUVWXYZ'' ''abcdefghijklmnopqrstuvwxyz'') c of
        Some l \<Rightarrow> l
      | None \<Rightarrow> c)"

definition lower :: "string \<Rightarrow> string" where
  "lower s = map lower_char s"

text \<open>\<open>s.startswith(p)\<close> and the substring test \<open>needle in hay\<close> on strings.\<close>

fun startswith :: "string \<Rightarrow> string \<Rightarrow> bool" where
  "startswith s [] = True"
| "startswith [] (p # ps) = False"
| "startswith (c # cs) (p # ps) = (c = p \<and> startswith cs ps)"

fun str_in :: "string \<Rightarrow> string \<Rightarrow> bool" where
  "str_in needle [] = (needle = [])"
| "str_in needle (c # cs) = (startswith (c # cs) needle \<or> str_in needle cs)"

text \<open>Truthiness of an \<open>Optional[str]\<close> and of an \<open>Optional[int]\<close>.\<close>

fun truthy_str :: "string option \<Rightarrow> bool" where
  "truthy_str None = False"
| "truthy_str (Some s) = (s \<noteq> [])"

fun truthy_int :: "int option \<Rightarrow> bool" where
  "truthy_int None = False"
| "truthy_int (Some n) = (n \<noteq> 0)"

subsection \<open>Calendar dates (\<open>datetime.date\<close>)\<close>

record date =
  year :: int
  month :: int
  day :: int

text \<open>A time of day (\<open>datetime.time\<close>) is the number of microseconds since midnight:
  Python orders naive times by hour, minute, second and microsecond, which is the order
  of that number.\<close>

type_synonym time = nat

record datetime =
  dt_date :: date
  dt_time :: time

definition is_leap :: "int \<Rightarrow> bool" where
  "is_leap y = (y mod 4 = 0 \<and> (y mod 100 \<noteq> 0 \<or> y mod 400 = 0))"

definition days_in_month :: "int \<Rightarrow> int \<Rightarrow> int" where
  "days_in_month y m =
     (if m = 2 then (if is_leap y then 29 else 28)
      else if m = 4 \<or> m = 6 \<or> m = 9 \<or> m = 11 then 30
      else if 1 \<le> m \<and> m \<le> 12 then 31
      else 0)"

definition valid_date :: "date \<Rightarrow> bool" where
  "valid_date d =
     (1 \<le> year d \<and> year d \<le> 9999 \<and> 1 \<le> month d \<and> month d \<le> 12 \<and>
      1 \<le> day d \<and> day d \<le> days_in_month (year d) (month d))"

text \<open>Dates compare as the tuples (year, month, day).\<close>

definition date_key :: "date \<Rightarrow> int \<times> int \<times> int" where
  "date_key d = (year d, month d, day d)"

definition date_lt :: "date \<Rightarrow> date \<Rightarrow> bool" where
  "date_lt a b = (date_key a < date_key b)"

definition date_le :: "date \<Rightarrow> date \<Rightarrow> bool" where
  "date_le a b = (date_key a \<le> date_key b)"

text \<open>\<open>d.replace(day=n)\<close> builds a new date and raises ValueError when \<open>n\<close> is not a
  day of the month of \<open>d\<close>.\<close>

definition replace_day :: "date \<Rightarrow> int \<Rightarrow> error + date" where
  "replace_day d n =
     (if 1 \<le> n \<and> n \<le> days_in_month (year d) (month d) then Inr (d\<lparr>day := n\<rparr>)
      else Inl ValueError)"

text \<open>The proleptic Gregorian ordinal and the day of the week, Monday being 0, as
  CPython computes them.\<close>

definition days_before_year :: "int \<Rightarrow> int" where
  "days_before_year y = (y - 1) * 365 + (y - 1) div 4 - (y - 1) div 100 + (y - 1) div 400"

definition days_before_month :: "int \<Rightarrow> int \<Rightarrow> int" where
  "days_before_month y m =
     [0, 31, 59, 90, 120, 151, 181, 212, 243, 273, 304, 334] ! nat (m - 1)
       + (if m > 2 \<and> is_leap y then 1 else 0)"

definition toordinal :: "date \<Rightarrow> int" where
  "toordinal d = days_before_year (year d) + days_before_month (year d) (month d) + day d"

definition weekday :: "date \<Rightarrow> int" where
  "weekday d = (toordinal d + 6) mod 7"

text \<open>\<open>d - timedelta(days=1)\<close> and \<open>d + timedelta(days=1)\<close>: the previous and the next
  calendar day; OverflowError outside 0001-01-01 .. 9999-12-31.\<close>

definition prev_day :: "date \<Rightarrow> error + date" where
  "prev_day d =
     (if day d > 1 then Inr (d\<lparr>day := day d - 1\<rparr>)
      else if month d > 1 then
        Inr (d\<lparr>month := month d - 1, day := days_in_month (year d) (month d - 1)\<rparr>)
      else if year d > 1 then Inr \<lparr>year = year d - 1, month = 12, day = 31\<rparr>
      else Inl OverflowError)"

definition next_day :: "date \<Rightarrow> error + date" where
  "next_day d =
     (if day d < days_in_month (year d) (month d) then Inr (d\<lparr>day := day d + 1\<rparr>)
      else if month d < 12 then Inr (d\<lparr>month := month d + 1, day := 1\<rparr>)
      else if year d < 9999 then Inr \<lparr>year = year d + 1, month = 1, day = 1\<rparr>
      else Inl OverflowError)"

text \<open>\<open>d - timedelta(days=k)\<close> and \<open>d + timedelta(days=k)\<close> for \<open>k \<ge> 0\<close>, one calendar
  day at a time.\<close>

fun sub_days :: "date \<Rightarrow> nat \<Rightarrow> error + date" where
  "sub_days d 0 = Inr d"
| "sub_days d (Suc k) = (case prev_day d of Inl e \<Rightarrow> Inl e | Inr d' \<Rightarrow> sub_days d' k)"

fun add_days :: "date \<Rightarrow> nat \<Rightarrow> error + date" where
  "add_days d 0 = Inr d"
| "add_days d (Suc k) = (case next_day d of Inl e \<Rightarrow> Inl e | Inr d' \<Rightarrow> add_days d' k)"

subsection \<open>Floating point (\<open>float\<close>)\<close>

text \<open>
  A finite IEEE 754 double is the rational number it denotes. An operation computes the
  exact result and rounds it to the nearest double, ties to even, with a significand of
  53 bits (and the fixed spacing of the subnormal range below \<open>2 ^ -1022\<close>). The
  overflow to infinity above \<open>2 ^ 1024\<close> is left out: the ledger only divides counts of
  rows.
\<close>

definition round_half_even :: "rat \<Rightarrow> int" where
  "round_half_even q =
     (let f = \<lfloor>q\<rfloor>; r = q - of_int f
      in if r < 1 / 2 then f else if r > 1 / 2 then f + 1 else if even f then f else f + 1)"

definition pow2 :: "int \<Rightarrow> rat" where
  "pow2 e = (if e \<ge> 0 then 2 ^ nat e else 1 / 2 ^ nat (- e))"

text \<open>The exponent \<open>e\<close> with \<open>2 ^ e \<le> \<bar>q\<bar> < 2 ^ (e + 1)\<close>, for \<open>q \<noteq> 0\<close>.\<close>

definition ilog2 :: "rat \<Rightarrow> int" where
  "ilog2 q =
     (let (a, b) = quotient_of \<bar>q\<bar>; e = bitlen a - bitlen b
      in if pow2 e \<le> \<bar>q\<bar> then e else e - 1)"

definition to_double :: "rat \<Rightarrow> rat" where
  "to_double q =
     (if q = 0 then 0
      else let e = max (ilog2 q) (- 1022); ulp = pow2 (e - 52)
           in of_int (round_half_even (q / ulp)) * ulp)"

definition float_of_int :: "int \<Rightarrow> rat" where
  "float_of_int n = to_double (of_int n)"

definition float_add :: "rat \<Rightarrow> rat \<Rightarrow> rat" where
  "float_add x y = to_double (x + y)"

definition float_mul :: "rat \<Rightarrow> rat \<Rightarrow> rat" where
  "float_mul x y = to_double (x * y)"

definition float_div :: "rat \<Rightarrow> rat \<Rightarrow> error + rat" where
  "float_div x y = (if y = 0 then Inl ZeroDivisionError else Inr (to_double (x / y)))"

text \<open>\<open>round(x, 1)\<close>: the exact value of \<open>x\<close> is rounded to one decimal place, ties to
  even, and the decimal is converted back to the nearest double.\<close>

definition py_round1 :: "rat \<Rightarrow> rat" where
  "py_round1 x = to_double (of_int (round_half_even (x * 10)) / 10)"

subsection \<open>\<open>src/utils/date_utils.py\<close>\<close>

definition is_weekday :: "date \<Rightarrow> bool" where
  "is_weekday d = (weekday d < 5)"

definition is_weekend :: "date \<Rightarrow> bool" where
  "is_weekend d = (weekday d \<ge> 5)"

text \<open>\<open>d.strftime("%A")\<close> in the C locale.\<close>

definition strftime_A :: "date \<Rightarrow> string" where
  "strftime_A d =
     [''Monday'', ''Tuesday'', ''Wednesday'', ''Thursday'', ''Friday'', ''Saturday'', ''Sunday'']
       ! nat (weekday d)"

definition get_day_name :: "date \<Rightarrow> string" where
  "get_day_name d = lower (strftime_A d)"

text \<open>\<open>get_week_bounds(target_date, week_start)\<close>; the caller resolves an absent
  \<open>target_date\<close> to today.\<close>

definition get_week_bounds :: "date \<Rightarrow> string \<Rightarrow> error + date \<times> date" where
  "get_week_bounds target_date week_start =
     (let start_day = (if lower week_start = ''monday'' then 0 else 6);
          days_since_start = (weekday target_date - start_day) mod 7
      in case sub_days target_date (nat days_since_start) of
           Inl e \<Rightarrow> Inl e
         | Inr week_start_date \<Rightarrow>
             (case add_days week_start_date 6 of
                Inl e \<Rightarrow> Inl e
              | Inr week_end_date \<Rightarrow> Inr (week_start_date, week_end_date)))"

section \<open>Data model (\<open>src/models\<close>)\<close>

record activity =
  a_id :: int
  a_title :: string
  a_description :: "string option"
  a_category :: string
  a_start_time :: time
  a_duration :: "int option"
  a_recurrence :: string
  a_custom_days :: "string option"
  a_location :: "string option"
  a_prep_time :: int
  a_is_outdoor :: bool
  a_is_active :: bool
  a_created_at :: datetime
  a_updated_at :: datetime

record completion =
  c_id :: int
  c_activity_id :: int
  c_date :: date
  c_status :: string
  c_completed_at :: "datetime option"
  c_notes :: "string option"
  c_created_at :: datetime

text \<open>The database session: both tables in insertion order, and the next primary key
  of each.\<close>

record db =
  activities :: "activity list"
  completions :: "completion list"
  next_activity_id :: int
  next_completion_id :: int

section \<open>Configuration (\<open>src/config/defaults.py\<close>)\<close>

definition CATEGORIES :: "string list" where
  "CATEGORIES = [''Work'', ''Personal'', ''Health'', ''Education'', ''Errands'', ''Social'',
                 ''Finance'', ''Other'']"

definition RECURRENCE_OPTIONS :: "string list" where
  "RECURRENCE_OPTIONS = [''once'', ''daily'', ''weekdays'', ''weekends'', ''weekly'', ''custom'']"

definition COMPLETION_STATUSES :: "string list" where
  "COMPLETION_STATUSES = [''done'', ''missed'', ''partial'', ''rescheduled'']"

section \<open>Schedule resolver (\<open>src/core/activity_manager.py\<close>)\<close>

definition is_scheduled_for_date :: "activity \<Rightarrow> date \<Rightarrow> bool" where
  "is_scheduled_for_date activity target_date =
     (let recurrence = a_recurrence activity in
      if recurrence = ''daily'' then True
      else if recurrence = ''weekdays'' then is_weekday target_date
      else if recurrence = ''weekends'' then is_weekend target_date
      else if recurrence = ''weekly'' then
        weekday target_date = weekday (dt_date (a_created_at activity))
      else if recurrence = ''custom'' \<and> truthy_str (a_custom_days activity) then
        (let day_name = take 3 (get_day_name target_date)
         in str_in day_name (lower (the (a_custom_days activity))))
      else if recurrence = ''once'' then
        target_date = dt_date (a_created_at activity)
      else False)"

text \<open>The weekday abbreviations the decision table of the specification speaks of.\<close>

definition weekday_abbr :: "int \<Rightarrow> string" where
  "weekday_abbr w =
     (if w = 0 then ''mon'' else if w = 1 then ''tue'' else if w = 2 then ''wed''
      else if w = 3 then ''thu'' else if w = 4 then ''fri'' else if w = 5 then ''sat''
      else ''sun'')"

text \<open>The loop body of \<open>get_for_week\<close> for one day: every activity due that day joins
  the result unless it is already there. Within a session a row is one object, and
  primary keys are unique: \<open>activity not in result\<close> is the membership of the
  record.\<close>

fun scan_day :: "activity list \<Rightarrow> date \<Rightarrow> activity list \<Rightarrow> activity list" where
  "scan_day [] current result = result"
| "scan_day (activity # rest) current result =
     scan_day rest current
       (if is_scheduled_for_date activity current \<and> activity \<notin> set result
        then result @ [activity] else result)"

text \<open>The \<open>while current <= week_end\<close> loop, which steps with
  \<open>current.replace(day=current.day + 1)\<close>.\<close>

function week_loop ::
  "activity list \<Rightarrow> date \<Rightarrow> date \<Rightarrow> activity list \<Rightarrow> error + activity list" where
  "week_loop all_activities current week_end result =
     (if date_le current week_end then
        (case replace_day current (day current + 1) of
           Inl e \<Rightarrow> Inl e
         | Inr nxt \<Rightarrow>
             week_loop all_activities nxt week_end (scan_day all_activities current result))
      else Inr result)"
  by pat_completeness auto
termination
  by (relation "measure (\<lambda>(all_activities, current, week_end, result). nat (32 - day current))")
     (auto simp: replace_day_def days_in_month_def split: if_splits)

declare week_loop.simps [simp del]

definition get_by_id :: "db \<Rightarrow> int \<Rightarrow> activity option" where
  "get_by_id s activity_id = find (\<lambda>a. a_id a = activity_id) (activities s)"

definition get_all :: "db \<Rightarrow> bool \<Rightarrow> activity list" where
  "get_all s active_only =
     sort_key a_start_time
       (if active_only then filter a_is_active (activities s) else activities s)"

definition get_for_date :: "db \<Rightarrow> date \<Rightarrow> activity list" where
  "get_for_date s target_date =
     sort_key a_start_time
       (filter (\<lambda>activity. is_scheduled_for_date activity target_date) (get_all s True))"

text \<open>\<open>get_for_week(target_date)\<close>; \<open>today\<close> is what \<open>date.today()\<close> returns.\<close>

definition get_for_week :: "date \<Rightarrow> db \<Rightarrow> date option \<Rightarrow> error + activity list" where
  "get_for_week today s target_date =
     (case get_week_bounds (case target_date of None \<Rightarrow> today | Some d \<Rightarrow> d) ''monday'' of
        Inl e \<Rightarrow> Inl e
      | Inr (week_start, week_end) \<Rightarrow>
          (case week_loop (get_all s True) week_start week_end [] of
             Inl e \<Rightarrow> Inl e
           | Inr result \<Rightarrow> Inr (sort_key a_start_time result)))"

section \<open>Validation (\<open>src/utils/validators.py\<close>)\<close>

definition validate_category :: "string \<Rightarrow> error + string" where
  "validate_category category =
     (case find (\<lambda>cat. lower cat = lower category) CATEGORIES of
        Some cat \<Rightarrow> Inr cat
      | None \<Rightarrow> Inl ValueError)"

definition validate_recurrence :: "string \<Rightarrow> error + string" where
  "validate_recurrence recurrence =
     (if lower recurrence \<in> set RECURRENCE_OPTIONS then Inr (lower recurrence)
      else Inl ValueError)"

definition validate_status :: "string \<Rightarrow> error + string" where
  "validate_status status =
     (if lower status \<in> set COMPLETION_STATUSES then Inr (lower status)
      else Inl ValueError)"

definition validate_duration :: "int \<Rightarrow> error + int" where
  "validate_duration duration =
     (if duration < 1 then Inl ValueError
      else if duration > 1440 then Inl ValueError
      else Inr duration)"

definition validate_prep_time :: "int \<Rightarrow> error + int" where
  "validate_prep_time prep_time =
     (if prep_time < 0 then Inl ValueError
      else if prep_time > 180 then Inl ValueError
      else Inr prep_time)"

section \<open>Creating an activity (\<open>ActivityManager.create\<close>)\<close>

text \<open>
  \<open>parse_time\<close> wraps the dateutil parser, which is outside the repository: it is a
  parameter. \<open>now\<close> is what \<open>datetime.now()\<close> returns when the row is inserted.
\<close>

definition create ::
  "(string \<Rightarrow> error + time) \<Rightarrow> datetime \<Rightarrow> db \<Rightarrow> string \<Rightarrow> string \<Rightarrow> string \<Rightarrow>
   string option \<Rightarrow> int option \<Rightarrow> string \<Rightarrow> string option \<Rightarrow> string option \<Rightarrow> int \<Rightarrow>
   bool \<Rightarrow> error + activity \<times> db" where
  "create parse_time now s title start_time category description duration recurrence
     custom_days location prep_time is_outdoor =
     (case parse_time start_time of
        Inl e \<Rightarrow> Inl e
      | Inr parsed_time \<Rightarrow>
     (case validate_category category of
        Inl e \<Rightarrow> Inl e
      | Inr validated_category \<Rightarrow>
     (case validate_recurrence recurrence of
        Inl e \<Rightarrow> Inl e
      | Inr validated_recurrence \<Rightarrow>
     (case (if truthy_int duration then map_sum id Some (validate_duration (the duration))
            else Inr duration) of
        Inl e \<Rightarrow> Inl e
      | Inr duration' \<Rightarrow>
     (case (if prep_time \<noteq> 0 then validate_prep_time prep_time else Inr prep_time) of
        Inl e \<Rightarrow> Inl e
      | Inr prep_time' \<Rightarrow>
          (let activity =
             \<lparr>a_id = next_activity_id s, a_title = title, a_description = description,
              a_category = validated_category, a_start_time = parsed_time,
              a_duration = duration', a_recurrence = validated_recurrence,
              a_custom_days = custom_days, a_location = location, a_prep_time = prep_time',
              a_is_outdoor = is_outdoor, a_is_active = True, a_created_at = now,
              a_updated_at = now\<rparr>
           in Inr (activity,
                   s\<lparr>activities := activities s @ [activity],
                     next_activity_id := next_activity_id s + 1\<rparr>)))))))"

section \<open>Completion ledger (\<open>src/core/completion_manager.py\<close>)\<close>

text \<open>The row a query's \<open>.first()\<close> returned is changed in place: the first element
  that satisfies the filter is replaced.\<close>

fun update_first :: "('a \<Rightarrow> bool) \<Rightarrow> 'a \<Rightarrow> 'a list \<Rightarrow> 'a list" where
  "update_first P y [] = []"
| "update_first P y (x # xs) = (if P x then y # xs else x # update_first P y xs)"

definition for_pair :: "int \<Rightarrow> date \<Rightarrow> completion \<Rightarrow> bool" where
  "for_pair activity_id target_date c = (c_activity_id c = activity_id \<and> c_date c = target_date)"

text \<open>
  \<open>mark\<close> returns its result together with the database it leaves behind: an
  exception (\<open>Inl\<close>), None when the activity does not exist, or the record written.
  \<open>now\<close> is the clock, read by \<open>date.today()\<close> and \<open>datetime.now()\<close>.
\<close>

definition mark ::
  "datetime \<Rightarrow> db \<Rightarrow> int \<Rightarrow> string \<Rightarrow> date option \<Rightarrow> string option \<Rightarrow>
   (error + completion option) \<times> db" where
  "mark now s activity_id status target_date notes =
     (case validate_status status of
        Inl e \<Rightarrow> (Inl e, s)
      | Inr validated_status \<Rightarrow>
          (let target_date = (case target_date of None \<Rightarrow> dt_date now | Some d \<Rightarrow> d) in
           case find (\<lambda>a. a_id a = activity_id) (activities s) of
             None \<Rightarrow> (Inr None, s)
           | Some activity \<Rightarrow>
               (case find (for_pair activity_id target_date) (completions s) of
                  Some existing \<Rightarrow>
                    (let existing' = existing
                           \<lparr>c_status := validated_status,
                            c_notes := (if truthy_str notes then notes else c_notes existing),
                            c_completed_at :=
                              (if validated_status = ''done'' then Some now
                               else c_completed_at existing)\<rparr>
                     in (Inr (Some existing'),
                         s\<lparr>completions :=
                             update_first (for_pair activity_id target_date) existing'
                               (completions s)\<rparr>))
                | None \<Rightarrow>
                    (let completion =
                       \<lparr>c_id = next_completion_id s, c_activity_id = activity_id,
                        c_date = target_date, c_status = validated_status,
                        c_completed_at =
                          (if validated_status = ''done'' then Some now else None),
                        c_notes = notes, c_created_at = now\<rparr>
                     in (Inr (Some completion),
                         s\<lparr>completions := completions s @ [completion],
                           next_completion_id := next_completion_id s + 1\<rparr>)))))"

definition get_completion_status :: "db \<Rightarrow> int \<Rightarrow> date \<Rightarrow> string option" where
  "get_completion_status s activity_id target_date =
     map_option c_status (find (for_pair activity_id target_date) (completions s))"

record stats =
  s_total :: int
  s_done :: int
  s_missed :: int
  s_partial :: int
  s_rescheduled :: int
  s_completion_rate :: rat

definition in_range :: "db \<Rightarrow> date \<Rightarrow> date \<Rightarrow> completion list" where
  "in_range s start_date end_date =
     filter (\<lambda>c. date_le start_date (c_date c) \<and> date_le (c_date c) end_date) (completions s)"

definition count_status :: "string \<Rightarrow> completion list \<Rightarrow> int" where
  "count_status st cs = int (length (filter (\<lambda>c. c_status c = st) cs))"

definition get_stats :: "db \<Rightarrow> date \<Rightarrow> date \<Rightarrow> error + stats" where
  "get_stats s start_date end_date =
     (let completions = in_range s start_date end_date;
          total = int (length completions)
      in if total = 0 then
           Inr \<lparr>s_total = 0, s_done = 0, s_missed = 0, s_partial = 0, s_rescheduled = 0,
                s_completion_rate = 0\<rparr>
         else
           (let done = count_status ''done'' completions;
                missed = count_status ''missed'' completions;
                partial = count_status ''partial'' completions;
                rescheduled = count_status ''rescheduled'' completions
            in case float_div
                      (float_add (float_of_int done) (float_mul (float_of_int partial) (1 / 2)))
                      (float_of_int total) of
                 Inl e \<Rightarrow> Inl e
               | Inr q \<Rightarrow>
                   (let completion_rate = float_mul q (float_of_int 100)
                    in Inr \<lparr>s_total = total, s_done = done, s_missed = missed,
                            s_partial = partial, s_rescheduled = rescheduled,
                            s_completion_rate = py_round1 completion_rate\<rparr>)))"

text \<open>The \<open>done\<close> records of an activity, newest date first.\<close>

definition done_completions :: "db \<Rightarrow> int \<Rightarrow> completion list" where
  "done_completions s activity_id =
     rev (sort_key (\<lambda>c. date_key (c_date c))
            (filter (\<lambda>c. c_activity_id c = activity_id \<and> c_status c = ''done'')
               (completions s)))"

text \<open>The loop of \<open>CompletionManager.get_streak\<close>, which steps back with
  \<open>expected_date.replace(day=expected_date.day - 1)\<close>.\<close>

fun streak_loop :: "completion list \<Rightarrow> int \<Rightarrow> date \<Rightarrow> error + int" where
  "streak_loop [] streak expected_date = Inr streak"
| "streak_loop (c # cs) streak expected_date =
     (if c_date c = expected_date then
        (case replace_day expected_date (day expected_date - 1) of
           Inl e \<Rightarrow> Inl e
         | Inr expected_date' \<Rightarrow> streak_loop cs (streak + 1) expected_date')
      else if date_lt (c_date c) expected_date then Inr streak
      else streak_loop cs streak expected_date)"

definition get_streak :: "date \<Rightarrow> db \<Rightarrow> int \<Rightarrow> error + int" where
  "get_streak today s activity_id =
     (let completions = done_completions s activity_id
      in if completions = [] then Inr 0 else streak_loop completions 0 today)"

section \<open>Analytics engine (\<open>src/core/analytics_engine.py\<close>)\<close>

text \<open>The loop of \<open>AnalyticsEngine._calculate_streak\<close>, which steps back with
  \<open>expected_date -= timedelta(days=1)\<close>.\<close>

fun calculate_streak_loop :: "completion list \<Rightarrow> int \<Rightarrow> date \<Rightarrow> error + int" where
  "calculate_streak_loop [] streak expected_date = Inr streak"
| "calculate_streak_loop (c # cs) streak expected_date =
     (if c_date c = expected_date then
        (case sub_days expected_date 1 of
           Inl e \<Rightarrow> Inl e
         | Inr expected_date' \<Rightarrow> calculate_streak_loop cs (streak + 1) expected_date')
      else if date_lt (c_date c) expected_date then Inr streak
      else calculate_streak_loop cs streak expected_date)"

definition calculate_streak :: "date \<Rightarrow> db \<Rightarrow> int \<Rightarrow> error + int" where
  "calculate_streak today s activity_id =
     (let completions = done_completions s activity_id
      in if completions = [] then Inr 0 else calculate_streak_loop completions 0 today)"

record streak_entry =
  se_activity_id :: int
  se_title :: string
  se_category :: string
  se_streak :: int

fun streak_entries :: "date \<Rightarrow> db \<Rightarrow> activity list \<Rightarrow> error + streak_entry list" where
  "streak_entries today s [] = Inr []"
| "streak_entries today s (activity # rest) =
     (case calculate_streak today s (a_id activity) of
        Inl e \<Rightarrow> Inl e
      | Inr streak \<Rightarrow>
          (case streak_entries today s rest of
             Inl e \<Rightarrow> Inl e
           | Inr streaks \<Rightarrow>
               Inr (\<lparr>se_activity_id = a_id activity, se_title = a_title activity,
                     se_category = a_category activity, se_streak = streak\<rparr> # streaks)))"

text \<open>\<open>sorted(xs, key=f, reverse=True)\<close> is stable: elements with equal keys keep
  their order.\<close>

definition sorted_reverse :: "('a \<Rightarrow> 'k::linorder) \<Rightarrow> 'a list \<Rightarrow> 'a list" where
  "sorted_reverse f xs = rev (sort_key f (rev xs))"

definition get_streaks :: "date \<Rightarrow> db \<Rightarrow> error + streak_entry list" where
  "get_streaks today s =
     (case streak_entries today s (filter a_is_active (activities s)) of
        Inl e \<Rightarrow> Inl e
      | Inr streaks \<Rightarrow> Inr (sorted_reverse se_streak streaks))"


section \<open>Sample data\<close>

definition sample_activity :: "string \<Rightarrow> string option \<Rightarrow> date \<Rightarrow> activity" where
  "sample_activity recurrence custom_days created =
     \<lparr>a_id = 1, a_title = ''Run'', a_description = None, a_category = ''Health'',
      a_start_time = 0, a_duration = None, a_recurrence = recurrence,
      a_custom_days = custom_days, a_location = None, a_prep_time = 15,
      a_is_outdoor = False, a_is_active = True,
      a_created_at = \<lparr>dt_date = created, dt_time = 0\<rparr>,
      a_updated_at = \<lparr>dt_date = created, dt_time = 0\<rparr>\<rparr>"

definition ymd :: "int \<Rightarrow> int \<Rightarrow> int \<Rightarrow> date" where
  "ymd y m d = \<lparr>year = y, month = m, day = d\<rparr>"

definition sample_now :: datetime where
  "sample_now = \<lparr>dt_date = ymd 2024 3 1, dt_time = 0\<rparr>"

definition sample_later :: datetime where
  "sample_later = \<lparr>dt_date = ymd 2024 3 1, dt_time = 60000000\<rparr>"

definition sample_db :: db where
  "sample_db =
     \<lparr>activities = [sample_activity ''daily'' None (ymd 2024 1 3)], completions = [],
      next_activity_id = 2, next_completion_id = 1\<rparr>"

definition sample_completion :: "string \<Rightarrow> datetime option \<Rightarrow> string option \<Rightarrow> completion" where
  "sample_completion status completed_at notes =
     \<lparr>c_id = 1, c_activity_id = 1, c_date = ymd 2024 3 1, c_status = status,
      c_completed_at = completed_at, c_notes = notes, c_created_at = sample_now\<rparr>"

definition sample_db_with :: "completion \<Rightarrow> db" where
  "sample_db_with c = sample_db\<lparr>completions := [c], next_completion_id := 2\<rparr>"

definition sample_parse_time :: "string \<Rightarrow> error + time" where
  "sample_parse_time t = (if t = ''09:00'' then Inr 32400000000 else Inl ValueError)"

definition sample_created :: "string \<Rightarrow> int option \<Rightarrow> activity" where
  "sample_created title duration =
     \<lparr>a_id = 2, a_title = title, a_description = None, a_category = ''Work'',
      a_start_time = 32400000000, a_duration = duration, a_recurrence = ''weekly'',
      a_custom_days = None, a_location = None, a_prep_time = 15, a_is_outdoor = False,
      a_is_active = True, a_created_at = sample_now, a_updated_at = sample_now\<rparr>"

definition sample_done :: "int \<Rightarrow> date \<Rightarrow> completion" where
  "sample_done n d =
     \<lparr>c_id = n, c_activity_id = 1, c_date = d, c_status = ''done'',
      c_completed_at = Some \<lparr>dt_date = d, dt_time = 0\<rparr>, c_notes = None,
      c_created_at = \<lparr>dt_date = d, dt_time = 0\<rparr>\<rparr>"

definition sample_ledger :: "completion list \<Rightarrow> db" where
  "sample_ledger cs = sample_db\<lparr>completions := cs, next_completion_id := 1 + int (length cs)\<rparr>"

definition sample_week :: db where
  "sample_week =
     sample_ledger
       [sample_done 1 (ymd 2024 3 1), sample_done 2 (ymd 2024 3 2),
        (sample_done 3 (ymd 2024 3 3))\<lparr>c_status := ''partial''\<rparr>,
        (sample_done 4 (ymd 2024 3 4))\<lparr>c_status := ''partial''\<rparr>,
        (sample_done 5 (ymd 2024 3 9))\<lparr>c_status := ''missed''\<rparr>]"

section \<open>Properties of the schedule resolver\<close>

lemma startswith_iff: "startswith s p \<longleftrightarrow> (\<exists>suf. s = p @ suf)"
  by (induction s p rule: startswith.induct) auto

lemma str_in_iff: "str_in needle hay \<longleftrightarrow> (\<exists>pre suf. hay = pre @ needle @ suf)"
proof (induction hay)
  case Nil
  then show ?case by auto
next
  case (Cons c cs)
  show ?case
  proof
    assume "str_in needle (c # cs)"
    then consider "startswith (c # cs) needle" | "str_in needle cs" by auto
    then show "\<exists>pre suf. c # cs = pre @ needle @ suf"
    proof cases
      case 1
      then obtain suf where "c # cs = needle @ suf" by (auto simp: startswith_iff)
      then have "c # cs = [] @ needle @ suf" by simp
      then show ?thesis by blast
    next
      case 2
      then obtain pre suf where "cs = pre @ needle @ suf" using Cons.IH by blast
      then have "c # cs = (c # pre) @ needle @ suf" by simp
      then show ?thesis by blast
    qed
  next
    assume "\<exists>pre suf. c # cs = pre @ needle @ suf"
    then obtain pre suf where e: "c # cs = pre @ needle @ suf" by blast
    show "str_in needle (c # cs)"
    proof (cases pre)
      case Nil
      then have "startswith (c # cs) needle" using e by (auto simp: startswith_iff)
      then show ?thesis by simp
    next
      case (Cons p ps)
      then have "cs = ps @ needle @ suf" using e by simp
      then have "str_in needle cs" using Cons.IH by blast
      then show ?thesis by simp
    qed
  qed
qed

lemma weekday_range: "0 \<le> weekday d \<and> weekday d < 7"
  by (simp add: weekday_def)

lemma day_abbr: "take 3 (get_day_name d) = weekday_abbr (weekday d)"
proof -
  have r: "0 \<le> weekday d \<and> weekday d < 7" by (rule weekday_range)
  then consider "weekday d = 0" | "weekday d = 1" | "weekday d = 2" | "weekday d = 3"
    | "weekday d = 4" | "weekday d = 5" | "weekday d = 6" by arith
  then show ?thesis
    by cases (simp_all add: get_day_name_def strftime_A_def lower_def lower_char_def weekday_abbr_def)
qed

lemma weekday_ymd:
  "weekday (ymd y m d) =
     (days_before_year y + days_before_month y m + d + 6) mod 7"
  by (simp add: weekday_def toordinal_def ymd_def)

lemmas weekday_eval = weekday_ymd days_before_year_def days_before_month_def is_leap_def

text \<open>
  C1. The due-decision of the schedule resolver follows the recurrence decision table,
  for every activity and every date: \<open>daily\<close> is always due; \<open>weekdays\<close> is due
  exactly on Monday to Friday (weekdays 0 to 4); \<open>weekends\<close> exactly on Saturday and
  Sunday (5 and 6); \<open>weekly\<close> exactly when the weekday is that of the creation
  timestamp; \<open>custom\<close> exactly when the three-letter lowercase abbreviation of the
  weekday is a substring of the lowercased custom-days text; \<open>once\<close> exactly on the
  calendar date of the creation timestamp, so that the set of due dates is that single
  date; any other recurrence value is never due.
\<close>

theorem is_scheduled_decision_table:
  "(a_recurrence a = ''daily'' \<longrightarrow> is_scheduled_for_date a d) \<and>
   (a_recurrence a = ''weekdays'' \<longrightarrow>
      (is_scheduled_for_date a d \<longleftrightarrow> weekday d \<in> {0, 1, 2, 3, 4})) \<and>
   (a_recurrence a = ''weekends'' \<longrightarrow>
      (is_scheduled_for_date a d \<longleftrightarrow> weekday d \<in> {5, 6})) \<and>
   (a_recurrence a = ''weekly'' \<longrightarrow>
      (is_scheduled_for_date a d \<longleftrightarrow> weekday d = weekday (dt_date (a_created_at a)))) \<and>
   (a_recurrence a = ''custom'' \<longrightarrow>
      (is_scheduled_for_date a d \<longleftrightarrow>
         (\<exists>txt pre suf. a_custom_days a = Some txt \<and>
                         lower txt = pre @ weekday_abbr (weekday d) @ suf))) \<and>
   (a_recurrence a = ''once'' \<longrightarrow>
      (is_scheduled_for_date a d \<longleftrightarrow> d = dt_date (a_created_at a)) \<and>
      {x. is_scheduled_for_date a x} = {dt_date (a_created_at a)}) \<and>
   (a_recurrence a \<notin> set RECURRENCE_OPTIONS \<longrightarrow> \<not> is_scheduled_for_date a d)"
proof -
  have r: "0 \<le> weekday d \<and> weekday d < 7" by (rule weekday_range)
  have daily: "a_recurrence a = ''daily'' \<longrightarrow> is_scheduled_for_date a d"
    by (simp add: is_scheduled_for_date_def)
  have weekdays: "a_recurrence a = ''weekdays'' \<longrightarrow>
      (is_scheduled_for_date a d \<longleftrightarrow> weekday d \<in> {0, 1, 2, 3, 4})"
    using r by (auto simp: is_scheduled_for_date_def is_weekday_def)
  have weekends: "a_recurrence a = ''weekends'' \<longrightarrow>
      (is_scheduled_for_date a d \<longleftrightarrow> weekday d \<in> {5, 6})"
    using r by (auto simp: is_scheduled_for_date_def is_weekend_def)
  have weekly: "a_recurrence a = ''weekly'' \<longrightarrow>
      (is_scheduled_for_date a d \<longleftrightarrow> weekday d = weekday (dt_date (a_created_at a)))"
    by (simp add: is_scheduled_for_date_def)
  have custom: "a_recurrence a = ''custom'' \<longrightarrow>
      (is_scheduled_for_date a d \<longleftrightarrow>
         (\<exists>txt pre suf. a_custom_days a = Some txt \<and>
                         lower txt = pre @ weekday_abbr (weekday d) @ suf))"
  proof
    assume c: "a_recurrence a = ''custom''"
    show "is_scheduled_for_date a d \<longleftrightarrow>
         (\<exists>txt pre suf. a_custom_days a = Some txt \<and>
                         lower txt = pre @ weekday_abbr (weekday d) @ suf)"
    proof (cases "a_custom_days a")
      case None
      then show ?thesis using c by (simp add: is_scheduled_for_date_def)
    next
      case (Some cd)
      show ?thesis
      proof (cases "cd = []")
        case True
        have "weekday_abbr (weekday d) \<noteq> []" by (simp add: weekday_abbr_def)
        then show ?thesis using c Some True
          by (simp add: is_scheduled_for_date_def lower_def)
      next
        case False
        then show ?thesis using c Some
          by (simp add: is_scheduled_for_date_def day_abbr str_in_iff)
      qed
    qed
  qed
  have once1: "a_recurrence a = ''once'' \<Longrightarrow>
      (is_scheduled_for_date a x \<longleftrightarrow> x = dt_date (a_created_at a))" for x
    by (simp add: is_scheduled_for_date_def)
  have once: "a_recurrence a = ''once'' \<longrightarrow>
      (is_scheduled_for_date a d \<longleftrightarrow> d = dt_date (a_created_at a)) \<and>
      {x. is_scheduled_for_date a x} = {dt_date (a_created_at a)}"
    using once1 by auto
  have other: "a_recurrence a \<notin> set RECURRENCE_OPTIONS \<longrightarrow> \<not> is_scheduled_for_date a d"
    by (simp add: is_scheduled_for_date_def RECURRENCE_OPTIONS_def)
  from daily weekdays weekends weekly custom once other show ?thesis by blast
qed


theorem is_scheduled_decision_table_witness:
  "is_scheduled_for_date (sample_activity ''daily'' None (ymd 2024 1 3)) (ymd 2024 1 31) \<and>
   is_scheduled_for_date (sample_activity ''weekdays'' None (ymd 2024 1 3)) (ymd 2024 1 31) \<and>
   \<not> is_scheduled_for_date (sample_activity ''weekends'' None (ymd 2024 1 3)) (ymd 2024 1 31) \<and>
   is_scheduled_for_date (sample_activity ''weekly'' None (ymd 2024 1 3)) (ymd 2024 1 31) \<and>
   is_scheduled_for_date (sample_activity ''custom'' (Some ''Mon,WED'') (ymd 2024 1 3)) (ymd 2024 1 31) \<and>
   \<not> is_scheduled_for_date (sample_activity ''once'' None (ymd 2024 1 3)) (ymd 2024 1 31) \<and>
   {d. is_scheduled_for_date (sample_activity ''once'' None (ymd 2024 1 3)) d} = {ymd 2024 1 3} \<and>
   \<not> is_scheduled_for_date (sample_activity ''Daily'' None (ymd 2024 1 3)) (ymd 2024 1 31)"
proof -
  let ?d = "ymd 2024 1 31" and ?c = "ymd 2024 1 3"
  have w: "weekday ?d = 2" "weekday ?c = 2" by (simp_all add: weekday_eval)
  have 1: "is_scheduled_for_date (sample_activity ''daily'' None ?c) ?d"
    using is_scheduled_decision_table [of "sample_activity ''daily'' None ?c" ?d]
    by (simp add: sample_activity_def)
  have 2: "is_scheduled_for_date (sample_activity ''weekdays'' None ?c) ?d"
    using is_scheduled_decision_table [of "sample_activity ''weekdays'' None ?c" ?d] w
    by (simp add: sample_activity_def)
  have 3: "\<not> is_scheduled_for_date (sample_activity ''weekends'' None ?c) ?d"
    using is_scheduled_decision_table [of "sample_activity ''weekends'' None ?c" ?d] w
    by (simp add: sample_activity_def)
  have 4: "is_scheduled_for_date (sample_activity ''weekly'' None ?c) ?d"
    using is_scheduled_decision_table [of "sample_activity ''weekly'' None ?c" ?d] w
    by (simp add: sample_activity_def)
  have "lower ''Mon,WED'' = ''mon,'' @ weekday_abbr (weekday ?d) @ []"
    by (simp add: w weekday_abbr_def lower_def lower_char_def)
  then have "\<exists>txt pre suf. a_custom_days (sample_activity ''custom'' (Some ''Mon,WED'') ?c) = Some txt \<and>
                         lower txt = pre @ weekday_abbr (weekday ?d) @ suf"
    unfolding sample_activity_def by (intro exI conjI) (simp, assumption)
  then have 5: "is_scheduled_for_date (sample_activity ''custom'' (Some ''Mon,WED'') ?c) ?d"
    using is_scheduled_decision_table [of "sample_activity ''custom'' (Some ''Mon,WED'') ?c" ?d]
    by (simp add: sample_activity_def)
  have 6: "\<not> is_scheduled_for_date (sample_activity ''once'' None ?c) ?d \<and>
     {d. is_scheduled_for_date (sample_activity ''once'' None ?c) d} = {?c}"
    using is_scheduled_decision_table [of "sample_activity ''once'' None ?c" ?d]
    by (simp add: sample_activity_def ymd_def)
  have 7: "\<not> is_scheduled_for_date (sample_activity ''Daily'' None ?c) ?d"
    using is_scheduled_decision_table [of "sample_activity ''Daily'' None ?c" ?d]
    by (simp add: sample_activity_def RECURRENCE_OPTIONS_def)
  from 1 2 3 4 5 6 7 show ?thesis by blast
qed

section \<open>Properties of the completion ledger\<close>

lemma find_update_first:
  "find P xs = Some x \<Longrightarrow> P y \<Longrightarrow> find P (update_first P y xs) = Some y"
  by (induction xs) (auto split: if_splits)

lemma filter_update_first:
  "find P xs = Some x \<Longrightarrow> P y \<Longrightarrow> filter P (update_first P y xs) = y # tl (filter P xs)"
  by (induction xs) (auto split: if_splits)

lemma length_update_first: "length (update_first P y xs) = length xs"
  by (induction xs) auto

lemma find_None_filter: "find P xs = None \<Longrightarrow> filter P xs = []"
  by (induction xs) (auto split: if_splits)

lemma find_Some_filter: "find P xs = Some x \<Longrightarrow> \<exists>rest. filter P xs = x # rest"
  by (induction xs) (auto split: if_splits)

lemma find_Some_holds: "find P xs = Some x \<Longrightarrow> P x"
  by (induction xs) (auto split: if_splits)

lemma find_append_new: "find P xs = None \<Longrightarrow> P y \<Longrightarrow> find P (xs @ [y]) = Some y"
  by (induction xs) (auto split: if_splits)

lemma validate_status_Inr: "validate_status status = Inr v \<longleftrightarrow> (v = lower status \<and> lower status \<in> set COMPLETION_STATUSES)"
  by (auto simp: validate_status_def)

lemma mark_written:
  assumes "mark now s aid status td notes = (Inr (Some r), s')"
  shows "lower status \<in> set COMPLETION_STATUSES \<and>
         (case find (for_pair aid (case td of None \<Rightarrow> dt_date now | Some x \<Rightarrow> x)) (completions s) of
            Some existing \<Rightarrow>
              r = existing\<lparr>c_status := lower status,
                     c_notes := (if truthy_str notes then notes else c_notes existing),
                     c_completed_at := (if lower status = ''done'' then Some now
                                        else c_completed_at existing)\<rparr> \<and>
              s' = s\<lparr>completions :=
                      update_first (for_pair aid (case td of None \<Rightarrow> dt_date now | Some x \<Rightarrow> x)) r
                        (completions s)\<rparr>
          | None \<Rightarrow>
              r = \<lparr>c_id = next_completion_id s, c_activity_id = aid,
                   c_date = (case td of None \<Rightarrow> dt_date now | Some x \<Rightarrow> x),
                   c_status = lower status,
                   c_completed_at = (if lower status = ''done'' then Some now else None),
                   c_notes = notes, c_created_at = now\<rparr> \<and>
              s' = s\<lparr>completions := completions s @ [r],
                      next_completion_id := next_completion_id s + 1\<rparr>)"
  using assms
  by (auto simp: mark_def validate_status_def Let_def split: sum.splits option.splits if_splits)

lemma mark_for_pair:
  assumes "mark now s aid status td notes = (Inr (Some r), s')"
  shows "for_pair aid (case td of None \<Rightarrow> dt_date now | Some x \<Rightarrow> x) r"
  using mark_written [OF assms]
  by (auto simp: for_pair_def split: option.splits dest: find_Some_holds)

lemma mark_stored:
  assumes "mark now s aid status td notes = (Inr (Some r), s')"
  shows "find (for_pair aid (case td of None \<Rightarrow> dt_date now | Some x \<Rightarrow> x)) (completions s') = Some r"
  using mark_written [OF assms] mark_for_pair [OF assms]
  by (auto split: option.splits simp: find_update_first find_append_new)

lemma mark_filter:
  assumes "mark now s aid status td notes = (Inr (Some r), s')"
  shows "filter (for_pair aid (case td of None \<Rightarrow> dt_date now | Some x \<Rightarrow> x)) (completions s')
         = r # tl (filter (for_pair aid (case td of None \<Rightarrow> dt_date now | Some x \<Rightarrow> x)) (completions s))"
  using mark_written [OF assms] mark_for_pair [OF assms]
  by (auto split: option.splits simp: filter_update_first find_None_filter)

lemma filter_update_first_other:
  "(\<And>x. P x \<Longrightarrow> \<not> Q x) \<Longrightarrow> \<not> Q y \<Longrightarrow> filter Q (update_first P y xs) = filter Q xs"
  by (induction xs) auto

lemma mark_unwritten:
  "mark now s aid status td notes = (r, s') \<Longrightarrow> r = Inr None \<or> (\<exists>e. r = Inl e) \<Longrightarrow> s' = s"
  by (auto simp: mark_def Let_def split: sum.splits option.splits)

text \<open>
  Only \<open>mark\<close> writes completion records, and it keeps a pair that has at most one
  record at one record at most: the uniqueness of the ledger is an invariant, true of
  the empty ledger.
\<close>

lemma mark_keeps_one_per_pair:
  assumes m: "mark now s aid status td notes = (r, s')"
      and one: "length (filter (for_pair a d) (completions s)) \<le> 1"
  shows "length (filter (for_pair a d) (completions s')) \<le> 1"
proof (cases r)
  case (Inl e)
  then show ?thesis using mark_unwritten [OF m] one by simp
next
  case (Inr w)
  show ?thesis
  proof (cases w)
    case None
    then show ?thesis using Inr mark_unwritten [OF m] one by simp
  next
    case (Some c)
    let ?d = "case td of None \<Rightarrow> dt_date now | Some x \<Rightarrow> x"
    have m': "mark now s aid status td notes = (Inr (Some c), s')" using m Inr Some by simp
    show ?thesis
    proof (cases "a = aid \<and> d = ?d")
      case True
      have "tl (filter (for_pair a d) (completions s)) = []"
        using one by (cases "filter (for_pair a d) (completions s)") auto
      then show ?thesis using mark_filter [OF m'] True by simp
    next
      case False
      have nc: "\<not> for_pair a d c" using mark_for_pair [OF m'] False by (auto simp: for_pair_def)
      have "filter (for_pair a d) (completions s') = filter (for_pair a d) (completions s)"
      proof (cases "find (for_pair aid ?d) (completions s)")
        case None
        then show ?thesis using mark_written [OF m'] nc by simp
      next
        case (Some existing)
        have "filter (for_pair a d) (update_first (for_pair aid ?d) c (completions s))
              = filter (for_pair a d) (completions s)"
          using False nc by (intro filter_update_first_other) (auto simp: for_pair_def)
        then show ?thesis using mark_written [OF m'] Some by simp
      qed
      then show ?thesis using one by simp
    qed
  qed
qed

lemma statuses_lower: "st \<in> set COMPLETION_STATUSES \<Longrightarrow> lower st = st"
  by (auto simp: COMPLETION_STATUSES_def lower_def lower_char_def)

text \<open>
  C4. Two successive successful \<open>mark\<close> calls for the same (activity, date) pair,
  on a ledger that holds at most one record for the pair, leave exactly one record for
  the pair: the second call changes the record of the first in place (same identifier,
  same number of rows), and the stored status is the status of the second call, which
  \<open>validate_status\<close> has put in lower case.
\<close>

theorem mark_twice_single_record:
  assumes m1: "mark now1 s aid status1 td1 notes1 = (Inr (Some r1), s1)"
      and m2: "mark now2 s1 aid status2 td2 notes2 = (Inr (Some r2), s2)"
      and d1: "(case td1 of None \<Rightarrow> dt_date now1 | Some x \<Rightarrow> x) = d"
      and d2: "(case td2 of None \<Rightarrow> dt_date now2 | Some x \<Rightarrow> x) = d"
      and one: "length (filter (for_pair aid d) (completions s)) \<le> 1"
  shows "filter (for_pair aid d) (completions s2) = [r2] \<and>
         c_status r2 = lower status2 \<and>
         (status2 \<in> set COMPLETION_STATUSES \<longrightarrow> c_status r2 = status2) \<and>
         get_completion_status s2 aid d = Some (c_status r2) \<and>
         c_id r2 = c_id r1 \<and>
         length (completions s2) = length (completions s1)"
proof -
  have "tl (filter (for_pair aid d) (completions s)) = []"
    using one by (cases "filter (for_pair aid d) (completions s)") auto
  then have f1: "filter (for_pair aid d) (completions s1) = [r1]"
    using mark_filter [OF m1] d1 by simp
  then have f2: "filter (for_pair aid d) (completions s2) = [r2]"
    using mark_filter [OF m2] d2 by simp
  have st1: "find (for_pair aid d) (completions s1) = Some r1"
    using mark_stored [OF m1] d1 by simp
  have w2: "r2 = r1\<lparr>c_status := lower status2,
                     c_notes := (if truthy_str notes2 then notes2 else c_notes r1),
                     c_completed_at := (if lower status2 = ''done'' then Some now2
                                        else c_completed_at r1)\<rparr> \<and>
            s2 = s1\<lparr>completions := update_first (for_pair aid d) r2 (completions s1)\<rparr>"
    using mark_written [OF m2] st1 d2 by simp
  have s: "c_status r2 = lower status2" using w2 by (cases r1) auto
  have i: "c_id r2 = c_id r1" using w2 by (cases r1) auto
  have l: "length (completions s2) = length (completions s1)"
    using w2 by (cases s1) (auto simp: length_update_first)
  have g: "get_completion_status s2 aid d = Some (c_status r2)"
    using mark_stored [OF m2] d2 by (simp add: get_completion_status_def)
  have "status2 \<in> set COMPLETION_STATUSES \<longrightarrow> c_status r2 = status2"
    using s statuses_lower by simp
  with f2 s i l g show ?thesis by blast
qed

lemmas sample_defs = sample_now_def sample_later_def sample_db_def sample_completion_def
  sample_db_with_def sample_activity_def ymd_def

lemmas mark_eval = mark_def validate_status_def COMPLETION_STATUSES_def lower_def lower_char_def
  for_pair_def Let_def

theorem mark_twice_single_record_witness:
  "mark sample_now sample_db 1 ''missed'' None (Some ''late'') =
     (Inr (Some (sample_completion ''missed'' None (Some ''late''))),
      sample_db_with (sample_completion ''missed'' None (Some ''late''))) \<and>
   mark sample_later (sample_db_with (sample_completion ''missed'' None (Some ''late''))) 1
       ''done'' (Some (ymd 2024 3 1)) None =
     (Inr (Some (sample_completion ''done'' (Some sample_later) (Some ''late''))),
      sample_db_with (sample_completion ''done'' (Some sample_later) (Some ''late''))) \<and>
   length (filter (for_pair 1 (ymd 2024 3 1)) (completions sample_db)) \<le> 1 \<and>
   filter (for_pair 1 (ymd 2024 3 1))
     (completions (sample_db_with (sample_completion ''done'' (Some sample_later) (Some ''late''))))
     = [sample_completion ''done'' (Some sample_later) (Some ''late'')] \<and>
   c_status (sample_completion ''done'' (Some sample_later) (Some ''late'')) = ''done''"
proof -
  have m1: "mark sample_now sample_db 1 ''missed'' None (Some ''late'') =
         (Inr (Some (sample_completion ''missed'' None (Some ''late''))),
          sample_db_with (sample_completion ''missed'' None (Some ''late'')))"
    by (simp add: mark_eval sample_defs)
  have m2: "mark sample_later (sample_db_with (sample_completion ''missed'' None (Some ''late''))) 1
           ''done'' (Some (ymd 2024 3 1)) None =
         (Inr (Some (sample_completion ''done'' (Some sample_later) (Some ''late''))),
          sample_db_with (sample_completion ''done'' (Some sample_later) (Some ''late'')))"
    by (simp add: mark_eval sample_defs)
  have d1: "(case None of None \<Rightarrow> dt_date sample_now | Some x \<Rightarrow> x) = ymd 2024 3 1"
    by (simp add: sample_defs)
  have d2: "(case Some (ymd 2024 3 1) of None \<Rightarrow> dt_date sample_later | Some x \<Rightarrow> x) = ymd 2024 3 1"
    by simp
  have one: "length (filter (for_pair 1 (ymd 2024 3 1)) (completions sample_db)) \<le> 1"
    by (simp add: sample_defs)
  have st: "''done'' \<in> set COMPLETION_STATUSES" by (simp add: COMPLETION_STATUSES_def)
  show ?thesis
    using mark_twice_single_record [OF m1 m2 d1 d2 one] m1 m2 one st by blast
qed

text \<open>
  C8. \<open>mark\<close> sets the completion timestamp to the clock exactly when the status
  written is \<open>done\<close>; otherwise the record keeps the timestamp it had (none for a new
  record). So a later \<open>mark\<close> of the same pair with another status leaves the
  timestamp of the earlier \<open>done\<close> in the stored record.
\<close>

theorem mark_completed_at:
  assumes m1: "mark now1 s aid status1 td1 notes1 = (Inr (Some r1), s1)"
      and m2: "mark now2 s1 aid status2 td2 notes2 = (Inr (Some r2), s2)"
      and d1: "(case td1 of None \<Rightarrow> dt_date now1 | Some x \<Rightarrow> x) = d"
      and d2: "(case td2 of None \<Rightarrow> dt_date now2 | Some x \<Rightarrow> x) = d"
  shows "c_completed_at r1 =
           (if lower status1 = ''done'' then Some now1
            else case find (for_pair aid d) (completions s) of
                   None \<Rightarrow> None
                 | Some existing \<Rightarrow> c_completed_at existing) \<and>
         c_completed_at r2 =
           (if lower status2 = ''done'' then Some now2 else c_completed_at r1) \<and>
         find (for_pair aid d) (completions s2) = Some r2"
proof -
  have c1: "c_completed_at r1 =
           (if lower status1 = ''done'' then Some now1
            else case find (for_pair aid d) (completions s) of
                   None \<Rightarrow> None
                 | Some existing \<Rightarrow> c_completed_at existing)"
    using mark_written [OF m1] d1 by (auto split: option.splits)
  have st1: "find (for_pair aid d) (completions s1) = Some r1"
    using mark_stored [OF m1] d1 by simp
  have c2: "c_completed_at r2 =
           (if lower status2 = ''done'' then Some now2 else c_completed_at r1)"
    using mark_written [OF m2] st1 d2 by auto
  have st2: "find (for_pair aid d) (completions s2) = Some r2"
    using mark_stored [OF m2] d2 by simp
  from c1 c2 st2 show ?thesis by blast
qed

theorem mark_completed_at_witness:
  "mark sample_now sample_db 1 ''done'' None None =
     (Inr (Some (sample_completion ''done'' (Some sample_now) None)),
      sample_db_with (sample_completion ''done'' (Some sample_now) None)) \<and>
   mark sample_later (sample_db_with (sample_completion ''done'' (Some sample_now) None)) 1
       ''missed'' None None =
     (Inr (Some (sample_completion ''missed'' (Some sample_now) None)),
      sample_db_with (sample_completion ''missed'' (Some sample_now) None)) \<and>
   c_completed_at (sample_completion ''missed'' (Some sample_now) None) = Some sample_now \<and>
   find (for_pair 1 (ymd 2024 3 1))
     (completions (sample_db_with (sample_completion ''missed'' (Some sample_now) None)))
     = Some (sample_completion ''missed'' (Some sample_now) None)"
proof -
  have m1: "mark sample_now sample_db 1 ''done'' None None =
     (Inr (Some (sample_completion ''done'' (Some sample_now) None)),
      sample_db_with (sample_completion ''done'' (Some sample_now) None))"
    by (simp add: mark_eval sample_defs)
  have m2: "mark sample_later (sample_db_with (sample_completion ''done'' (Some sample_now) None)) 1
       ''missed'' None None =
     (Inr (Some (sample_completion ''missed'' (Some sample_now) None)),
      sample_db_with (sample_completion ''missed'' (Some sample_now) None))"
    by (simp add: mark_eval sample_defs)
  have d1: "(case None of None \<Rightarrow> dt_date sample_now | Some x \<Rightarrow> x) = ymd 2024 3 1"
    by (simp add: sample_defs)
  have d2: "(case None of None \<Rightarrow> dt_date sample_later | Some x \<Rightarrow> x) = ymd 2024 3 1"
    by (simp add: sample_defs)
  have l1: "lower ''done'' = ''done''" and l2: "lower ''missed'' \<noteq> ''done''"
    by (simp_all add: lower_def lower_char_def)
  have c: "c_completed_at (sample_completion ''done'' (Some sample_now) None) = Some sample_now"
    by (simp add: sample_completion_def)
  have "c_completed_at (sample_completion ''missed'' (Some sample_now) None) = Some sample_now \<and>
        find (for_pair 1 (ymd 2024 3 1))
          (completions (sample_db_with (sample_completion ''missed'' (Some sample_now) None)))
          = Some (sample_completion ''missed'' (Some sample_now) None)"
    using mark_completed_at [OF m1 m2 d1 d2] l2 c by simp
  with m1 m2 show ?thesis by blast
qed

text \<open>
  C10. When the pair already has a record and the notes argument is absent or empty,
  \<open>mark\<close> keeps the notes of that record, in the record it returns and stores.
\<close>

theorem mark_keeps_notes:
  assumes ex: "find (for_pair aid d) (completions s) = Some existing"
      and m: "mark now s aid status td notes = (Inr (Some r), s')"
      and d: "(case td of None \<Rightarrow> dt_date now | Some x \<Rightarrow> x) = d"
      and n: "notes = None \<or> notes = Some []"
  shows "c_notes r = c_notes existing \<and> c_id r = c_id existing \<and>
         find (for_pair aid d) (completions s') = Some r"
proof -
  have t: "\<not> truthy_str notes" using n by auto
  have "c_notes r = c_notes existing \<and> c_id r = c_id existing"
    using mark_written [OF m] ex d t by auto
  moreover have "find (for_pair aid d) (completions s') = Some r"
    using mark_stored [OF m] d by simp
  ultimately show ?thesis by blast
qed

theorem mark_keeps_notes_witness:
  "find (for_pair 1 (ymd 2024 3 1))
     (completions (sample_db_with (sample_completion ''missed'' None (Some ''late''))))
     = Some (sample_completion ''missed'' None (Some ''late'')) \<and>
   mark sample_later (sample_db_with (sample_completion ''missed'' None (Some ''late''))) 1
       ''partial'' None (Some []) =
     (Inr (Some (sample_completion ''partial'' None (Some ''late''))),
      sample_db_with (sample_completion ''partial'' None (Some ''late''))) \<and>
   c_notes (sample_completion ''partial'' None (Some ''late'')) = Some ''late''"
proof -
  have ex: "find (for_pair 1 (ymd 2024 3 1))
     (completions (sample_db_with (sample_completion ''missed'' None (Some ''late''))))
     = Some (sample_completion ''missed'' None (Some ''late''))"
    by (simp add: for_pair_def sample_defs)
  have m: "mark sample_later (sample_db_with (sample_completion ''missed'' None (Some ''late''))) 1
       ''partial'' None (Some []) =
     (Inr (Some (sample_completion ''partial'' None (Some ''late''))),
      sample_db_with (sample_completion ''partial'' None (Some ''late'')))"
    by (simp add: mark_eval sample_defs)
  have d: "(case None of None \<Rightarrow> dt_date sample_later | Some x \<Rightarrow> x) = ymd 2024 3 1"
    by (simp add: sample_defs)
  have n: "Some [] = None \<or> Some [] = Some ([] :: string)" by simp
  have "c_notes (sample_completion ''partial'' None (Some ''late'')) = Some ''late''"
    using mark_keeps_notes [OF ex m d n] by (simp add: sample_completion_def)
  with ex m show ?thesis by blast
qed

text \<open>
  C5, as the code has it. \<open>mark\<close> raises ValueError exactly when the status, put in
  lower case, is not one of the enumerated statuses; with a valid status and an activity
  identifier that no activity has, it returns None and raises nothing; in both cases the
  database is left as it was. Otherwise it writes a record.
\<close>

theorem mark_failures:
  "(lower status \<notin> set COMPLETION_STATUSES \<longrightarrow>
      mark now s aid status td notes = (Inl ValueError, s)) \<and>
   (lower status \<in> set COMPLETION_STATUSES \<and> aid \<notin> a_id ` set (activities s) \<longrightarrow>
      mark now s aid status td notes = (Inr None, s)) \<and>
   (lower status \<in> set COMPLETION_STATUSES \<and> aid \<in> a_id ` set (activities s) \<longrightarrow>
      (\<exists>r s'. mark now s aid status td notes = (Inr (Some r), s')))"
proof -
  have a: "lower status \<notin> set COMPLETION_STATUSES \<longrightarrow>
      mark now s aid status td notes = (Inl ValueError, s)"
    by (simp add: mark_def validate_status_def)
  have n: "find (\<lambda>a. a_id a = aid) (activities s) = None \<longleftrightarrow> aid \<notin> a_id ` set (activities s)"
    by (auto simp: find_None_iff)
  have b: "lower status \<in> set COMPLETION_STATUSES \<and> aid \<notin> a_id ` set (activities s) \<longrightarrow>
      mark now s aid status td notes = (Inr None, s)"
  proof
    assume h: "lower status \<in> set COMPLETION_STATUSES \<and> aid \<notin> a_id ` set (activities s)"
    then have "find (\<lambda>a. a_id a = aid) (activities s) = None" using n by simp
    then show "mark now s aid status td notes = (Inr None, s)"
      using h by (simp add: mark_def validate_status_def)
  qed
  have c: "lower status \<in> set COMPLETION_STATUSES \<and> aid \<in> a_id ` set (activities s) \<longrightarrow>
      (\<exists>r s'. mark now s aid status td notes = (Inr (Some r), s'))"
  proof
    assume h: "lower status \<in> set COMPLETION_STATUSES \<and> aid \<in> a_id ` set (activities s)"
    then obtain act where "find (\<lambda>a. a_id a = aid) (activities s) = Some act"
      using n by (cases "find (\<lambda>a. a_id a = aid) (activities s)") auto
    then show "\<exists>r s'. mark now s aid status td notes = (Inr (Some r), s')"
      using h by (simp add: mark_def validate_status_def Let_def split: option.splits)
  qed
  from a b c show ?thesis by blast
qed

theorem mark_failures_witness:
  "lower ''finished'' \<notin> set COMPLETION_STATUSES \<and>
   mark sample_now sample_db 1 ''finished'' None None = (Inl ValueError, sample_db) \<and>
   lower ''done'' \<in> set COMPLETION_STATUSES \<and> 7 \<notin> a_id ` set (activities sample_db) \<and>
   mark sample_now sample_db 7 ''done'' None None = (Inr None, sample_db)"
proof -
  have 1: "lower ''finished'' \<notin> set COMPLETION_STATUSES"
    by (simp add: COMPLETION_STATUSES_def lower_def lower_char_def)
  have 2: "lower ''done'' \<in> set COMPLETION_STATUSES \<and> 7 \<notin> a_id ` set (activities sample_db)"
    by (simp add: COMPLETION_STATUSES_def lower_def lower_char_def sample_defs)
  have 3: "mark sample_now sample_db 1 ''finished'' None None = (Inl ValueError, sample_db)"
    using mark_failures [of "''finished''" sample_now sample_db 1 None None] 1 by blast
  have 4: "mark sample_now sample_db 7 ''done'' None None = (Inr None, sample_db)"
    using mark_failures [of "''done''" sample_now sample_db 7 None None] 2 by blast
  from 1 2 3 4 show ?thesis by blast
qed

text \<open>
  C5 as stated fails twice: \<open>DONE\<close> is not in the enumerated set, yet \<open>mark\<close>
  accepts it and writes \<open>done\<close>; and for an unknown activity \<open>mark\<close> returns None
  where the claim has it fail with a not-found error.
\<close>

theorem mark_failures_counterexample:
  "''DONE'' \<notin> set COMPLETION_STATUSES \<and>
   mark sample_now sample_db 1 ''DONE'' None None =
     (Inr (Some (sample_completion ''done'' (Some sample_now) None)),
      sample_db_with (sample_completion ''done'' (Some sample_now) None)) \<and>
   7 \<notin> a_id ` set (activities sample_db) \<and>
   mark sample_now sample_db 7 ''done'' None None = (Inr None, sample_db)"
  by (simp add: mark_eval sample_defs)

section \<open>Properties of activity creation\<close>

lemma validate_category_Inr:
  "validate_category category = Inr c \<Longrightarrow> c \<in> set CATEGORIES \<and> lower c = lower category"
  by (auto simp: validate_category_def find_Some_iff split: option.splits)

lemma validate_recurrence_Inr:
  "validate_recurrence recurrence = Inr r \<Longrightarrow> r \<in> set RECURRENCE_OPTIONS \<and> r = lower recurrence"
  by (auto simp: validate_recurrence_def split: if_splits)

lemma validate_duration_Inr: "validate_duration d = Inr d' \<Longrightarrow> d' = d \<and> 1 \<le> d \<and> d \<le> 1440"
  by (auto simp: validate_duration_def split: if_splits)

lemma validate_prep_time_Inr: "validate_prep_time p = Inr p' \<Longrightarrow> p' = p \<and> 0 \<le> p \<and> p \<le> 180"
  by (auto simp: validate_prep_time_def split: if_splits)

lemma create_Inr:
  assumes "create parse_time now s title start_time category description duration recurrence
             custom_days location prep_time is_outdoor = Inr (a, s')"
  shows "\<exists>t c r. parse_time start_time = Inr t \<and> validate_category category = Inr c \<and>
           validate_recurrence recurrence = Inr r \<and>
           (truthy_int duration \<longrightarrow> validate_duration (the duration) = Inr (the duration)) \<and>
           (prep_time \<noteq> 0 \<longrightarrow> validate_prep_time prep_time = Inr prep_time) \<and>
           a = \<lparr>a_id = next_activity_id s, a_title = title, a_description = description,
                 a_category = c, a_start_time = t, a_duration = duration, a_recurrence = r,
                 a_custom_days = custom_days, a_location = location, a_prep_time = prep_time,
                 a_is_outdoor = is_outdoor, a_is_active = True, a_created_at = now,
                 a_updated_at = now\<rparr> \<and>
           s' = s\<lparr>activities := activities s @ [a], next_activity_id := next_activity_id s + 1\<rparr>"
  using assms
  unfolding create_def Let_def
  by (cases duration)
     (auto split: sum.splits if_splits dest!: validate_duration_Inr validate_prep_time_Inr
           simp: validate_duration_def validate_prep_time_def)

text \<open>
  C9, as the code has it. An activity that \<open>create\<close> returns has the title it was
  given, unchecked; its category is one of the enumerated categories, the one that
  matches the argument without regard to case; its recurrence is the argument in lower
  case and one of the enumerated kinds; its preparation time is within 0 to 180; and
  its duration, when present and not zero, is within 1 to 1440.
\<close>

theorem create_invariants:
  assumes "create parse_time now s title start_time category description duration recurrence
             custom_days location prep_time is_outdoor = Inr (a, s')"
  shows "a_title a = title \<and>
         a_category a \<in> set CATEGORIES \<and> lower (a_category a) = lower category \<and>
         a_recurrence a \<in> set RECURRENCE_OPTIONS \<and> a_recurrence a = lower recurrence \<and>
         0 \<le> a_prep_time a \<and> a_prep_time a \<le> 180 \<and>
         (\<forall>d. a_duration a = Some d \<and> d \<noteq> 0 \<longrightarrow> 1 \<le> d \<and> d \<le> 1440)"
proof -
  obtain t c r where
    c: "validate_category category = Inr c" and r: "validate_recurrence recurrence = Inr r" and
    d: "truthy_int duration \<longrightarrow> validate_duration (the duration) = Inr (the duration)" and
    p: "prep_time \<noteq> 0 \<longrightarrow> validate_prep_time prep_time = Inr prep_time" and
    a: "a = \<lparr>a_id = next_activity_id s, a_title = title, a_description = description,
                 a_category = c, a_start_time = t, a_duration = duration, a_recurrence = r,
                 a_custom_days = custom_days, a_location = location, a_prep_time = prep_time,
                 a_is_outdoor = is_outdoor, a_is_active = True, a_created_at = now,
                 a_updated_at = now\<rparr>"
    using create_Inr [OF assms] by blast
  have 1: "a_title a = title" using a by simp
  have 2: "a_category a \<in> set CATEGORIES \<and> lower (a_category a) = lower category"
    using a validate_category_Inr [OF c] by simp
  have 3: "a_recurrence a \<in> set RECURRENCE_OPTIONS \<and> a_recurrence a = lower recurrence"
    using a validate_recurrence_Inr [OF r] by auto
  have 4: "0 \<le> a_prep_time a \<and> a_prep_time a \<le> 180"
  proof (cases "prep_time = 0")
    case True
    then show ?thesis using a by simp
  next
    case False
    then show ?thesis using a p validate_prep_time_Inr [of prep_time prep_time] by simp
  qed
  have 5: "\<forall>x. a_duration a = Some x \<and> x \<noteq> 0 \<longrightarrow> 1 \<le> x \<and> x \<le> 1440"
    using a d validate_duration_Inr by auto
  from 1 2 3 4 5 show ?thesis by blast
qed

lemmas create_eval = create_def validate_category_def validate_recurrence_def
  validate_duration_def validate_prep_time_def CATEGORIES_def RECURRENCE_OPTIONS_def
  lower_def lower_char_def sample_parse_time_def sample_created_def Let_def

theorem create_invariants_witness:
  "create sample_parse_time sample_now sample_db ''Standup'' ''09:00'' ''WORK'' None (Some 30)
     ''Weekly'' None None 15 False =
     Inr (sample_created ''Standup'' (Some 30),
          sample_db\<lparr>activities := activities sample_db @ [sample_created ''Standup'' (Some 30)],
                    next_activity_id := 3\<rparr>) \<and>
   a_category (sample_created ''Standup'' (Some 30)) \<in> set CATEGORIES \<and>
   a_recurrence (sample_created ''Standup'' (Some 30)) \<in> set RECURRENCE_OPTIONS \<and>
   a_prep_time (sample_created ''Standup'' (Some 30)) \<le> 180 \<and>
   a_duration (sample_created ''Standup'' (Some 30)) = Some 30 \<and>
   1 \<le> the (a_duration (sample_created ''Standup'' (Some 30))) \<and>
   the (a_duration (sample_created ''Standup'' (Some 30))) \<le> 1440"
proof -
  have d: "a_duration (sample_created ''Standup'' (Some 30)) = Some 30"
    by (simp add: sample_created_def)
  have c: "create sample_parse_time sample_now sample_db ''Standup'' ''09:00'' ''WORK'' None (Some 30)
     ''Weekly'' None None 15 False =
     Inr (sample_created ''Standup'' (Some 30),
          sample_db\<lparr>activities := activities sample_db @ [sample_created ''Standup'' (Some 30)],
                    next_activity_id := 3\<rparr>)"
    by (simp add: create_eval sample_db_def)
  show ?thesis using create_invariants [OF c] c d by auto
qed

text \<open>
  C9 as stated fails: \<open>create\<close> does not look at the title, and a call with the
  empty title succeeds and stores an activity whose title is empty.
\<close>

theorem create_empty_title_counterexample:
  "create sample_parse_time sample_now sample_db [] ''09:00'' ''WORK'' None None
     ''Weekly'' None None 15 False =
     Inr (sample_created [] None,
          sample_db\<lparr>activities := activities sample_db @ [sample_created [] None],
                    next_activity_id := 3\<rparr>) \<and>
   a_title (sample_created [] None) = []"
  by (simp add: create_eval sample_db_def)

section \<open>Properties of the week range\<close>

lemma scan_day_distinct: "distinct result \<Longrightarrow> distinct (scan_day acts current result)"
  by (induction acts current result rule: scan_day.induct) auto

lemma week_loop_distinct:
  "distinct result \<Longrightarrow> week_loop acts current week_end result = Inr xs \<Longrightarrow> distinct xs"
proof (induction acts current week_end result rule: week_loop.induct)
  case (1 all_activities current week_end result)
  show ?case
  proof (cases "date_le current week_end")
    case True
    with "1.prems"(2) obtain nxt where
      r: "replace_day current (day current + 1) = Inr nxt" and
      l: "week_loop all_activities nxt week_end (scan_day all_activities current result) = Inr xs"
      by (subst (asm) week_loop.simps) (auto split: sum.splits)
    show ?thesis
      using "1.IH" [OF True r scan_day_distinct [OF "1.prems"(1)] l] .
  next
    case False
    then show ?thesis using "1.prems" by (subst (asm) week_loop.simps) simp
  qed
qed

lemma get_for_week_distinct_sorted:
  assumes "get_for_week today s target_date = Inr xs"
  shows "distinct xs \<and> sorted (map a_start_time xs)"
proof -
  obtain ws we ys where
    l: "week_loop (get_all s True) ws we [] = Inr ys" and x: "xs = sort_key a_start_time ys"
    using assms by (auto simp: get_for_week_def split: sum.splits prod.splits)
  have "distinct ys" using week_loop_distinct [OF _ l] by simp
  then show ?thesis using x by simp
qed

lemmas week_eval = get_for_week_def get_week_bounds_def weekday_def toordinal_def
  days_before_year_def days_before_month_def is_leap_def lower_def lower_char_def
  prev_day_def next_day_def days_in_month_def replace_day_def date_le_def date_key_def ymd_def

lemma week_bounds_jan31: "get_week_bounds (ymd 2024 1 31) ''monday'' = Inr (ymd 2024 1 29, ymd 2024 2 4)"
  by (simp add: week_eval eval_nat_numeral)

lemma loop_step:
  "date_le current week_end \<Longrightarrow> replace_day current (day current + 1) = Inr nxt \<Longrightarrow>
   week_loop acts current week_end result = week_loop acts nxt week_end (scan_day acts current result)"
  by (subst week_loop.simps) simp

lemma loop_raise:
  "date_le current week_end \<Longrightarrow> replace_day current (day current + 1) = Inl e \<Longrightarrow>
   week_loop acts current week_end result = Inl e"
  by (subst week_loop.simps) simp

lemma loop_exit:
  "\<not> date_le current week_end \<Longrightarrow> week_loop acts current week_end result = Inr result"
  by (subst week_loop.simps) simp

lemmas date_eval = replace_day_def date_le_def date_key_def ymd_def days_in_month_def is_leap_def

lemma week_loop_jan29: "week_loop acts (ymd 2024 1 29) (ymd 2024 2 4) r = Inl ValueError"
proof -
  have "week_loop acts (ymd 2024 1 31) (ymd 2024 2 4) r' = Inl ValueError" for r'
    by (rule loop_raise) (simp_all add: date_eval)
  then have "week_loop acts (ymd 2024 1 30) (ymd 2024 2 4) r' = Inl ValueError" for r'
    by (subst loop_step [where nxt = "ymd 2024 1 31"]) (simp_all add: date_eval)
  then show ?thesis
    by (subst loop_step [where nxt = "ymd 2024 1 30"]) (simp_all add: date_eval)
qed

lemma week_bounds_jan10: "get_week_bounds (ymd 2024 1 10) ''monday'' = Inr (ymd 2024 1 8, ymd 2024 1 14)"
  by (simp add: week_eval eval_nat_numeral)

lemma get_for_week_sample:
  "get_for_week today sample_db (Some (ymd 2024 1 10)) =
     Inr [sample_activity ''daily'' None (ymd 2024 1 3)]"
proof -
  let ?a = "sample_activity ''daily'' None (ymd 2024 1 3)"
  have s: "is_scheduled_for_date (sample_activity ''daily'' None c) d" for c d
    by (simp add: is_scheduled_for_date_def sample_activity_def)
  have "week_loop [?a] (ymd 2024 1 15) (ymd 2024 1 14) [?a] = Inr [?a]"
    by (rule loop_exit) (simp add: date_eval)
  then have "week_loop [?a] (ymd 2024 1 14) (ymd 2024 1 14) [?a] = Inr [?a]"
    by (subst loop_step [where nxt = "ymd 2024 1 15"]) (simp_all add: date_eval s)
  then have "week_loop [?a] (ymd 2024 1 13) (ymd 2024 1 14) [?a] = Inr [?a]"
    by (subst loop_step [where nxt = "ymd 2024 1 14"]) (simp_all add: date_eval s)
  then have "week_loop [?a] (ymd 2024 1 12) (ymd 2024 1 14) [?a] = Inr [?a]"
    by (subst loop_step [where nxt = "ymd 2024 1 13"]) (simp_all add: date_eval s)
  then have "week_loop [?a] (ymd 2024 1 11) (ymd 2024 1 14) [?a] = Inr [?a]"
    by (subst loop_step [where nxt = "ymd 2024 1 12"]) (simp_all add: date_eval s)
  then have "week_loop [?a] (ymd 2024 1 10) (ymd 2024 1 14) [?a] = Inr [?a]"
    by (subst loop_step [where nxt = "ymd 2024 1 11"]) (simp_all add: date_eval s)
  then have "week_loop [?a] (ymd 2024 1 9) (ymd 2024 1 14) [?a] = Inr [?a]"
    by (subst loop_step [where nxt = "ymd 2024 1 10"]) (simp_all add: date_eval s)
  then have "week_loop [?a] (ymd 2024 1 8) (ymd 2024 1 14) [] = Inr [?a]"
    by (subst loop_step [where nxt = "ymd 2024 1 9"]) (simp_all add: date_eval s)
  moreover have "get_all sample_db True = [?a]"
    by (simp add: get_all_def sample_db_def sample_activity_def)
  ultimately show ?thesis
    by (simp add: get_for_week_def week_bounds_jan10)
qed

text \<open>
  C3 fails on the code. For a reference date whose week holds the last day of a month
  the claim gives a list; \<open>get_for_week\<close> steps from 31 January with
  \<open>replace(day=32)\<close>, which raises ValueError, whatever the activities are.
\<close>

theorem get_for_week_month_end:
  "get_for_week today s (Some (ymd 2024 1 31)) = Inl ValueError"
  by (simp add: get_for_week_def week_bounds_jan31 week_loop_jan29)

section \<open>Properties of the streaks\<close>

lemmas streak_eval = get_streak_def calculate_streak_def done_completions_def sample_ledger_def
  sample_done_def sample_db_def sample_activity_def ymd_def date_key_def date_lt_def
  replace_day_def prev_day_def days_in_month_def is_leap_def Let_def

lemma streak_loop_no_match:
  "\<forall>c \<in> set cs. c_date c \<noteq> e \<Longrightarrow> streak_loop cs k e = Inr k"
  by (induction cs) auto

lemma replace_day_prev:
  "replace_day e (day e - 1) = Inr e' \<Longrightarrow> sub_days e 1 = Inr e'"
  by (auto simp: replace_day_def prev_day_def split: if_splits)

lemma streak_loop_calculate:
  "streak_loop cs k e = Inr n \<Longrightarrow> calculate_streak_loop cs k e = Inr n"
proof (induction cs k e rule: streak_loop.induct)
  case (1 streak expected_date)
  then show ?case by simp
next
  case (2 c cs streak expected_date)
  show ?case
  proof (cases "c_date c = expected_date")
    case True
    with "2.prems" obtain e' where
      r: "replace_day expected_date (day expected_date - 1) = Inr e'" and
      l: "streak_loop cs (streak + 1) e' = Inr n"
      by (auto split: sum.splits)
    have "calculate_streak_loop cs (streak + 1) e' = Inr n"
      using "2.IH"(1) [OF True r l] .
    then show ?thesis using True replace_day_prev [OF r] by simp
  next
    case False
    then show ?thesis using 2 by (auto split: if_splits)
  qed
qed

lemma get_streak_calculate_streak:
  "get_streak today s i = Inr n \<Longrightarrow> calculate_streak today s i = Inr n"
  by (auto simp: get_streak_def calculate_streak_def Let_def streak_loop_calculate split: if_splits)

lemma get_streak_no_done_today:
  assumes "\<forall>c \<in> set (completions s). c_activity_id c = i \<and> c_status c = ''done'' \<longrightarrow> c_date c \<noteq> today"
  shows "get_streak today s i = Inr 0"
proof -
  have "\<forall>c \<in> set (done_completions s i). c_date c \<noteq> today"
    using assms by (auto simp: done_completions_def)
  then show ?thesis by (simp add: get_streak_def Let_def streak_loop_no_match)
qed

lemma sorted_reverse_desc: "sorted (rev (map f (sorted_reverse f xs)))"
  by (simp add: sorted_reverse_def rev_map [symmetric])

lemma get_streaks_sorted:
  "get_streaks today s = Inr xs \<Longrightarrow> sorted (rev (map se_streak xs))"
  by (auto simp: get_streaks_def sorted_reverse_desc split: sum.splits)

lemma streak_loop_first_of_month:
  "c_date c = e \<Longrightarrow> day e = 1 \<Longrightarrow> streak_loop (c # cs) k e = Inl ValueError"
  by (simp add: replace_day_def)

text \<open>
  C2 fails on the code. On the first day of a month, with one \<open>done\<close> record for
  today, the claim gives the streak 1; \<open>get_streak\<close> counts the record and then steps
  back with \<open>replace(day=0)\<close>, which raises ValueError.
\<close>

theorem get_streak_first_of_month:
  "get_streak (ymd 2024 3 1) (sample_ledger [sample_done 1 (ymd 2024 3 1)]) 1 = Inl ValueError"
  by (simp add: streak_eval)

text \<open>
  C7 fails on the code, by the same step. On 2 March with \<open>done\<close> records for 1 and
  2 March, the analytics engine lists the streak 2, and the ledger raises ValueError
  where the claim has it return the same number.
\<close>

theorem get_streaks_differs_from_get_streak:
  "get_streaks (ymd 2024 3 2)
     (sample_ledger [sample_done 1 (ymd 2024 3 1), sample_done 2 (ymd 2024 3 2)]) =
     Inr [\<lparr>se_activity_id = 1, se_title = ''Run'', se_category = ''Health'', se_streak = 2\<rparr>] \<and>
   get_streak (ymd 2024 3 2)
     (sample_ledger [sample_done 1 (ymd 2024 3 1), sample_done 2 (ymd 2024 3 2)]) 1 =
     Inl ValueError"
  by (simp add: streak_eval get_streaks_def sorted_reverse_def)

section \<open>Properties of the range statistics\<close>

lemma pow2_powi: "pow2 e = 2 powi e"
  by (simp add: pow2_def power_int_def inverse_eq_divide power_one_over)

lemma pow2_pos: "0 < pow2 e"
  by (simp add: pow2_def)

lemma pow2_mono: "a \<le> b \<Longrightarrow> pow2 a \<le> pow2 b"
  by (simp add: pow2_powi power_int_increasing)

lemma round_half_even_ge1: "1 \<le> q \<Longrightarrow> 1 \<le> round_half_even q"
proof -
  assume "1 \<le> q"
  then have "1 \<le> \<lfloor>q\<rfloor>" by simp
  then show ?thesis by (auto simp: round_half_even_def Let_def)
qed

lemma pow2_bitlen_le:
  assumes n: "0 < n"
  shows "pow2 (bitlen n - 1) \<le> of_int n"
proof -
  have b: "2 ^ nat (bitlen n - 1) \<le> n" using bitlen_bounds [OF n] by simp
  have p: "0 \<le> bitlen n - 1" using n by (simp add: bitlen_def floorlog_def)
  have "(2::rat) ^ nat (bitlen n - 1) = of_int (2 ^ nat (bitlen n - 1))" by simp
  also have "\<dots> \<le> of_int n" using b by (simp only: of_int_le_iff)
  finally show ?thesis using p by (simp add: pow2_def)
qed

lemma bitlen_1: "bitlen 1 = 1"
  by (simp add: bitlen_def floorlog_def)

lemma ilog2_of_int: "0 < n \<Longrightarrow> ilog2 (of_int n) = bitlen n - 1"
  using pow2_bitlen_le [of n] by (simp add: ilog2_def bitlen_1 Let_def)

lemma float_of_int_pos:
  assumes n: "0 < n"
  shows "0 < float_of_int n"
proof -
  let ?e = "max (bitlen n - 1) (- 1022)"
  let ?ulp = "pow2 (?e - 52)"
  have p: "0 \<le> bitlen n - 1" using n by (simp add: bitlen_def floorlog_def)
  then have e: "?e = bitlen n - 1" by simp
  have "?ulp \<le> pow2 (bitlen n - 1)" unfolding e by (rule pow2_mono) simp
  also have "\<dots> \<le> of_int n" by (rule pow2_bitlen_le [OF n])
  finally have "?ulp \<le> of_int n" .
  then have "1 \<le> of_int n / ?ulp" using pow2_pos [of "?e - 52"] by (simp add: le_divide_eq)
  then have "1 \<le> round_half_even (of_int n / ?ulp)" by (rule round_half_even_ge1)
  then have "0 < of_int (round_half_even (of_int n / ?ulp)) * ?ulp"
    using pow2_pos [of "?e - 52"] by simp
  then show ?thesis
    using n by (simp add: float_of_int_def to_double_def ilog2_of_int Let_def)
qed

lemma pow2_add: "pow2 (a + b) = pow2 a * pow2 b"
  by (simp add: pow2_powi power_int_add)

lemma pow2_diff: "pow2 (a - b) = pow2 a / pow2 b"
  by (simp add: pow2_powi power_int_diff)

lemma pow2_nat: "0 \<le> e \<Longrightarrow> pow2 e = 2 ^ nat e"
  by (simp add: pow2_def)

lemma pow2_less_cancel: "pow2 a < pow2 b \<Longrightarrow> a < b"
  using pow2_mono [of b a] by (cases "a < b") auto

lemma round_half_even_error: "\<bar>of_int (round_half_even x) - x\<bar> \<le> 1 / 2"
proof -
  have "of_int \<lfloor>x\<rfloor> \<le> x" "x < of_int \<lfloor>x\<rfloor> + 1" by linarith+
  then show ?thesis
    by (auto simp: round_half_even_def Let_def abs_le_iff)
qed

lemma round_half_even_of_int: "round_half_even (of_int z) = z"
  by (simp add: round_half_even_def)

lemma bitlen_pow2_bounds:
  assumes "0 < a"
  shows "pow2 (bitlen a - 1) \<le> of_int a \<and> of_int a < pow2 (bitlen a)"
proof -
  have b: "2 ^ nat (bitlen a - 1) \<le> a \<and> a < 2 ^ nat (bitlen a)"
    using bitlen_bounds [OF assms] by simp
  have p: "0 \<le> bitlen a - 1" using assms by (simp add: bitlen_def floorlog_def)
  have "(2::rat) ^ nat (bitlen a) = of_int (2 ^ nat (bitlen a))" by simp
  moreover have "of_int a < (of_int (2 ^ nat (bitlen a)) :: rat)"
    using b by (simp only: of_int_less_iff)
  ultimately have "of_int a < pow2 (bitlen a)" using p by (simp add: pow2_def)
  then show ?thesis using pow2_bitlen_le [OF assms] by simp
qed

lemma ilog2_bounds:
  assumes q: "0 < q"
  shows "pow2 (ilog2 q) \<le> q \<and> q < pow2 (ilog2 q + 1)"
proof -
  obtain a b where ab: "quotient_of q = (a, b)" by (cases "quotient_of q")
  have b: "0 < b" using quotient_of_denom_pos [OF ab] .
  have qd: "q = of_int a / of_int b" using quotient_of_div [OF ab] .
  have a: "0 < a" using q b qd by (simp add: zero_less_divide_iff)
  let ?e = "bitlen a - bitlen b"
  have A: "pow2 (bitlen a - 1) \<le> of_int a" "of_int a < pow2 (bitlen a)"
    using bitlen_pow2_bounds [OF a] by simp_all
  have B: "pow2 (bitlen b - 1) \<le> of_int b" "of_int b < pow2 (bitlen b)"
    using bitlen_pow2_bounds [OF b] by simp_all
  have bp: "(0::rat) < of_int b" using b by simp
  have up: "q < pow2 (?e + 1)"
  proof -
    have "q * of_int b = of_int a" using qd bp by simp
    also have "\<dots> < pow2 (bitlen a)" by (rule A)
    also have "\<dots> = pow2 (?e + 1) * pow2 (bitlen b - 1)"
      by (simp add: pow2_add [symmetric])
    also have "\<dots> \<le> pow2 (?e + 1) * of_int b"
      using B(1) pow2_pos [of "?e + 1"] by (simp add: mult_left_mono)
    finally show ?thesis using bp by simp
  qed
  have lo: "pow2 (?e - 1) \<le> q"
  proof -
    have "pow2 (?e - 1) * of_int b \<le> pow2 (?e - 1) * pow2 (bitlen b)"
      using B(2) pow2_pos [of "?e - 1"] by (simp add: mult_left_mono)
    also have "\<dots> = pow2 (bitlen a - 1)" by (simp add: pow2_add [symmetric])
    also have "\<dots> \<le> of_int a" by (rule A)
    also have "\<dots> = q * of_int b" using qd bp by simp
    finally show ?thesis using bp by simp
  qed
  have i: "ilog2 q = (if pow2 ?e \<le> q then ?e else ?e - 1)"
    using q ab by (simp add: ilog2_def Let_def)
  show ?thesis
  proof (cases "pow2 ?e \<le> q")
    case True
    then show ?thesis using i up by simp
  next
    case False
    then show ?thesis using i lo by simp
  qed
qed

lemma ilog2_less: "0 < q \<Longrightarrow> q < pow2 k \<Longrightarrow> ilog2 q < k"
  using ilog2_bounds [of q] pow2_less_cancel [of "ilog2 q" k] by simp

lemma ilog2_ge: "0 < q \<Longrightarrow> pow2 k \<le> q \<Longrightarrow> k \<le> ilog2 q"
  using ilog2_bounds [of q] pow2_less_cancel [of k "ilog2 q + 1"] by simp

lemma to_double_error:
  assumes q: "0 < q" and n: "pow2 (- 1022) \<le> q"
  shows "\<bar>to_double q - q\<bar> \<le> q * pow2 (- 53)"
proof -
  let ?e = "ilog2 q"
  let ?ulp = "pow2 (?e - 52)"
  have e: "- 1022 \<le> ?e" using ilog2_ge [OF q n] .
  have u: "0 < ?ulp" by (rule pow2_pos)
  have td: "to_double q = of_int (round_half_even (q / ?ulp)) * ?ulp"
    using q e by (simp add: to_double_def Let_def max_def)
  have "\<bar>to_double q - q\<bar> = \<bar>of_int (round_half_even (q / ?ulp)) - q / ?ulp\<bar> * ?ulp"
  proof -
    have "to_double q - q = (of_int (round_half_even (q / ?ulp)) - q / ?ulp) * ?ulp"
      using u by (simp add: td algebra_simps)
    then show ?thesis using u by (simp add: abs_mult)
  qed
  also have "\<dots> \<le> (1 / 2) * ?ulp"
    using round_half_even_error [of "q / ?ulp"] u by (simp add: mult_right_mono)
  also have "\<dots> = pow2 ?e * pow2 (- 53)"
  proof -
    have "?ulp = pow2 (?e + (- 53) + 1)" by simp
    also have "\<dots> = pow2 ?e * pow2 (- 53) * pow2 1" by (simp only: pow2_add)
    finally show ?thesis by (simp add: pow2_def)
  qed
  also have "\<dots> \<le> q * pow2 (- 53)"
    using ilog2_bounds [OF q] pow2_pos [of "- 53"] by (simp add: mult_right_mono)
  finally show ?thesis .
qed

lemma to_double_exact:
  assumes m: "0 < m" "m < 2 ^ 53" and k: "- 1074 \<le> k"
  shows "to_double (of_int m * pow2 k) = of_int m * pow2 k"
proof -
  define q :: rat where "q = of_int m * pow2 k"
  define e where "e = max (ilog2 q) (- 1022)"
  define ulp where "ulp = pow2 (e - 52)"
  define j where "j = nat (k - (e - 52))"
  have q: "0 < q" using m pow2_pos [of k] by (simp add: q_def)
  have "of_int m < (of_int (2 ^ 53) :: rat)" using m by (simp only: of_int_less_iff)
  then have "of_int m < pow2 53" by (simp add: pow2_def)
  then have "q < pow2 53 * pow2 k"
    unfolding q_def using pow2_pos [of k] by (simp add: mult_strict_right_mono)
  then have "q < pow2 (53 + k)" by (simp add: pow2_add)
  then have e1: "ilog2 q < 53 + k" by (rule ilog2_less [OF q])
  have j: "0 \<le> k - (e - 52)" using e1 k by (simp add: e_def)
  have u: "0 < ulp" unfolding ulp_def by (rule pow2_pos)
  have "pow2 k = pow2 (k - (e - 52)) * ulp" by (simp add: ulp_def pow2_add [symmetric])
  then have pk: "pow2 k = 2 ^ j * ulp" using j by (simp add: pow2_nat j_def)
  have qu: "q = of_int (m * 2 ^ j) * ulp" by (simp add: q_def pk)
  then have "q / ulp = of_int (m * 2 ^ j)" using u by simp
  then have "round_half_even (q / ulp) = m * 2 ^ j"
    by (simp only: round_half_even_of_int)
  then have "of_int (round_half_even (q / ulp)) * ulp = q"
    using qu by simp
  then have "to_double q = q"
    using q by (simp add: to_double_def Let_def e_def [symmetric] ulp_def [symmetric])
  then show ?thesis by (simp add: q_def)
qed

lemma to_double_0: "to_double 0 = 0"
  by (simp add: to_double_def)

lemma float_of_int_exact: "0 \<le> n \<Longrightarrow> n < 2 ^ 53 \<Longrightarrow> float_of_int n = of_int n"
  using to_double_exact [of n 0] by (cases "n = 0") (auto simp: float_of_int_def to_double_0 pow2_def)

lemma round_half_even_nonneg: "0 \<le> x \<Longrightarrow> 0 \<le> round_half_even x"
proof -
  assume "0 \<le> x"
  then have "0 \<le> \<lfloor>x\<rfloor>" by simp
  then show ?thesis by (auto simp: round_half_even_def Let_def)
qed

lemma half_exact: "0 \<le> m \<Longrightarrow> m < 2 ^ 53 \<Longrightarrow> to_double (of_int m / 2) = of_int m / 2"
  using to_double_exact [of m "- 1"] by (cases "m = 0") (auto simp: to_double_0 pow2_def)

lemma to_double_error_small:
  assumes "pow2 (- 53) \<le> q"
  shows "\<bar>to_double q - q\<bar> \<le> q * pow2 (- 53)"
proof -
  have "0 < q" using assms pow2_pos [of "- 53"] by linarith
  moreover have "pow2 (- 1022) \<le> q" using assms pow2_mono [of "- 1022" "- 53"] by linarith
  ultimately show ?thesis by (rule to_double_error)
qed

lemma rate_accuracy:
  assumes d: "0 \<le> d" and p: "0 \<le> p" and dp: "d + p \<le> t" and t: "0 < t" "t < 2 ^ 52"
  shows "\<bar>py_round1 (float_mul
            (to_double (float_add (float_of_int d) (float_mul (float_of_int p) (1 / 2))
                        / float_of_int t))
            (float_of_int 100))
          - (of_int d + of_int p / 2) / of_int t * 100\<bar> \<le> 1 / 20 + 1 / 2 ^ 44"
proof -
  define \<delta> :: rat where "\<delta> = pow2 (- 53)"
  have \<delta>: "\<delta> = 1 / 2 ^ 53" by (simp add: \<delta>_def pow2_def)
  define N :: rat where "N = of_int d + of_int p / 2"
  define y :: rat where "y = N / of_int t"
  have d53: "d < 2 ^ 53" and p53: "p < 2 ^ 53" and t53: "t < 2 ^ 53" and n53: "2 * d + p < 2 ^ 53"
    using d p dp t by simp_all
  have fd: "float_of_int d = of_int d" using d d53 by (rule float_of_int_exact)
  have fp: "float_of_int p = of_int p" using p p53 by (rule float_of_int_exact)
  have ft: "float_of_int t = of_int t" using t t53 by (simp add: float_of_int_exact)
  have fh: "float_of_int 100 = 100" using float_of_int_exact [of 100] by simp
  have fm: "float_mul (of_int p) (1 / 2) = of_int p / 2"
    using half_exact [OF p p53] by (simp add: float_mul_def)
  have "of_int d + of_int p / 2 = (of_int (2 * d + p) :: rat) / 2" by simp
  moreover have "to_double (of_int (2 * d + p) / 2) = of_int (2 * d + p) / 2"
    using d p n53 by (intro half_exact) simp_all
  ultimately have fa: "float_add (of_int d) (of_int p / 2) = N"
    by (simp only: float_add_def N_def)
  have a1: "float_mul (float_of_int p) (1 / 2) = of_int p / 2" by (simp only: fp fm)
  have a2: "float_add (float_of_int d) (float_mul (float_of_int p) (1 / 2)) = N"
    by (simp only: fd a1 fa)
  have rate: "py_round1 (float_mul
            (to_double (float_add (float_of_int d) (float_mul (float_of_int p) (1 / 2))
                        / float_of_int t))
            (float_of_int 100)) = py_round1 (to_double (to_double y * 100))"
    by (simp only: a2 ft fh) (simp only: float_mul_def y_def)
  have N0: "0 \<le> N" using d p by (simp add: N_def)
  show ?thesis
  proof (cases "N = 0")
    case True
    then have "y = 0" by (simp add: y_def)
    then have "py_round1 (to_double (to_double y * 100)) = 0"
      by (simp add: to_double_0 py_round1_def round_half_even_def)
    then show ?thesis using rate True by (simp add: N_def [symmetric])
  next
    case False
    have "0 < 2 * d + p" using False d p by (auto simp: N_def)
    then have "1 \<le> 2 * d + p" by simp
    then have "(1 :: rat) \<le> of_int (2 * d + p)" by (simp only: of_int_1_le_iff)
    then have Nh: "1 / 2 \<le> N" by (simp add: N_def)
    have "N \<le> of_int d + of_int p" using p by (simp add: N_def)
    also have "\<dots> = of_int (d + p)" by simp
    also have "\<dots> \<le> of_int t" using dp by (simp only: of_int_le_iff)
    finally have Nt: "N \<le> of_int t" .
    have tp: "(0 :: rat) < of_int t" using t by simp
    have "t \<le> 2 ^ 52" using t by simp
    then have "of_int t \<le> (of_int (2 ^ 52) :: rat)" by (simp only: of_int_le_iff)
    then have t52: "of_int t \<le> (2 ^ 52 :: rat)" by simp
    have y1: "y \<le> 1" using Nt tp by (simp add: y_def)
    have "\<delta> * of_int t \<le> \<delta> * 2 ^ 52" using t52 by (simp add: \<delta> mult_left_mono)
    also have "\<dots> = 1 / 2" by (simp add: \<delta>)
    also have "\<dots> \<le> N" by (rule Nh)
    finally have ylo: "\<delta> \<le> y" using tp by (simp add: y_def le_divide_eq)
    have \<delta>p: "0 < \<delta>" by (simp add: \<delta>)
    define q where "q = to_double y"
    have qe: "\<bar>q - y\<bar> \<le> y * \<delta>"
      unfolding q_def \<delta>_def using ylo by (intro to_double_error_small) (simp add: \<delta>_def)
    have "y * \<delta> \<le> 1 * \<delta>" using y1 \<delta>p by (intro mult_right_mono) simp_all
    then have qe': "\<bar>q - y\<bar> \<le> \<delta>" using qe by linarith
    have "y * \<delta> \<le> y * (1 / 2)" using ylo \<delta>p by (intro mult_left_mono) (simp_all add: \<delta>)
    then have qlo: "y / 2 \<le> q" using qe by linarith
    have \<delta>s: "\<delta> \<le> 1 / 1000" by (simp add: \<delta>)
    have q2: "q \<le> 2" using qe' y1 \<delta>s by linarith
    have q100: "\<delta> \<le> q * 100" using qlo ylo \<delta>p by linarith
    define r where "r = to_double (q * 100)"
    have re: "\<bar>r - q * 100\<bar> \<le> q * 100 * \<delta>"
      unfolding r_def \<delta>_def using q100 by (intro to_double_error_small) (simp add: \<delta>_def)
    have "q * 100 \<le> 200" using q2 by simp
    then have "q * 100 * \<delta> \<le> 200 * \<delta>" using \<delta>p by (intro mult_right_mono) simp_all
    then have re': "\<bar>r - q * 100\<bar> \<le> 200 * \<delta>" using re by linarith
    have ry: "\<bar>r - y * 100\<bar> \<le> 300 * \<delta>" using re' qe' by linarith
    have r0: "0 \<le> r" using re q100 \<delta>p qlo ylo
    proof -
      have "q * 100 * \<delta> \<le> q * 100 * 1" using q100 \<delta>p by (intro mult_left_mono) (simp_all add: \<delta>)
      then show ?thesis using re by linarith
    qed
    have r101: "r \<le> 101" using ry y1 \<delta>s by linarith
    define k where "k = round_half_even (r * 10)"
    have k0: "0 \<le> k" unfolding k_def using r0 by (intro round_half_even_nonneg) simp
    have ke: "\<bar>of_int k - r * 10\<bar> \<le> 1 / 2" unfolding k_def by (rule round_half_even_error)
    then have ke': "\<bar>of_int k / 10 - r\<bar> \<le> 1 / 20" by linarith
    have k102: "of_int k / 10 \<le> (102 :: rat)" using ke' r101 by linarith
    define z where "z = to_double (of_int k / 10)"
    have ze: "\<bar>z - of_int k / 10\<bar> \<le> 102 * \<delta>"
    proof (cases "k = 0")
      case True
      then show ?thesis using \<delta>p by (simp add: z_def to_double_0)
    next
      case False
      then have "1 \<le> k" using k0 by simp
      then have "(1 :: rat) \<le> of_int k" by (simp only: of_int_1_le_iff)
      then have "\<delta> \<le> of_int k / 10" by (simp add: \<delta>)
      then have "\<bar>z - of_int k / 10\<bar> \<le> of_int k / 10 * \<delta>"
        unfolding z_def \<delta>_def by (intro to_double_error_small) (simp add: \<delta>_def)
      moreover have "of_int k / 10 * \<delta> \<le> 102 * \<delta>"
        using k102 \<delta>p by (intro mult_right_mono) simp_all
      ultimately show ?thesis by linarith
    qed
    have "\<bar>z - y * 100\<bar> \<le> 1 / 20 + 402 * \<delta>" using ze ke' ry by linarith
    moreover have "402 * \<delta> \<le> 1 / 2 ^ 44" by (simp add: \<delta>)
    ultimately have "\<bar>z - y * 100\<bar> \<le> 1 / 20 + 1 / 2 ^ 44" by linarith
    moreover have "py_round1 (to_double (to_double y * 100)) = z"
      by (simp add: py_round1_def z_def k_def r_def q_def)
    ultimately show ?thesis using rate by (simp add: y_def N_def)
  qed
qed

lemma count_done_partial:
  "count_status ''done'' cs + count_status ''partial'' cs \<le> int (length cs)"
  by (induction cs) (auto simp: count_status_def)

lemma count_status_nonneg: "0 \<le> count_status st cs"
  by (simp add: count_status_def)

lemma count_status_empty: "count_status st [] = 0"
  by (simp add: count_status_def)

lemma rate_example:
  "py_round1 (float_mul
      (to_double (float_add (float_of_int 2) (float_mul (float_of_int 2) (1 / 2)) / float_of_int 4))
      (float_of_int 100)) = 75"
  by code_simp

lemma get_stats_result:
  "\<exists>st. get_stats s start_date end_date = Inr st \<and>
     s_total st = int (length (in_range s start_date end_date)) \<and>
     s_done st = count_status ''done'' (in_range s start_date end_date) \<and>
     s_missed st = count_status ''missed'' (in_range s start_date end_date) \<and>
     s_partial st = count_status ''partial'' (in_range s start_date end_date) \<and>
     s_rescheduled st = count_status ''rescheduled'' (in_range s start_date end_date) \<and>
     (s_total st = 0 \<longrightarrow> s_completion_rate st = 0) \<and>
     (s_total st \<noteq> 0 \<longrightarrow>
        s_completion_rate st =
          py_round1 (float_mul
            (to_double (float_add (float_of_int (s_done st))
                          (float_mul (float_of_int (s_partial st)) (1 / 2))
                        / float_of_int (s_total st)))
            (float_of_int 100))) \<and>
     (s_total st \<noteq> 0 \<and> s_total st < 2 ^ 52 \<longrightarrow>
        \<bar>s_completion_rate st
           - (of_int (s_done st) + of_int (s_partial st) / 2) / of_int (s_total st) * 100\<bar>
          \<le> 1 / 20 + 1 / 2 ^ 44) \<and>
     (\<exists>k. s_completion_rate st = to_double (of_int k / 10)) \<and>
     (s_total st = 4 \<and> s_done st = 2 \<and> s_partial st = 2 \<longrightarrow> s_completion_rate st = 75)"
proof (cases "in_range s start_date end_date = []")
  case True
  have "\<exists>k. (0 :: rat) = to_double (of_int k / 10)"
    by (rule exI [of _ 0]) (simp add: to_double_0)
  then show ?thesis using True
    by (simp add: get_stats_def count_status_empty)
next
  case False
  let ?cs = "in_range s start_date end_date"
  let ?t = "int (length ?cs)"
  have t: "0 < ?t" using False by simp
  have nz: "float_of_int ?t \<noteq> 0" using float_of_int_pos [OF t] by simp
  let ?st = "\<lparr>s_total = ?t, s_done = count_status ''done'' ?cs,
              s_missed = count_status ''missed'' ?cs,
              s_partial = count_status ''partial'' ?cs,
              s_rescheduled = count_status ''rescheduled'' ?cs,
              s_completion_rate =
                py_round1 (float_mul
                  (to_double (float_add (float_of_int (count_status ''done'' ?cs))
                                (float_mul (float_of_int (count_status ''partial'' ?cs)) (1 / 2))
                              / float_of_int ?t))
                  (float_of_int 100))\<rparr>"
  have g: "get_stats s start_date end_date = Inr ?st"
    using False nz by (simp add: get_stats_def float_div_def Let_def)
  have ex: "s_total ?st = 4 \<and> s_done ?st = 2 \<and> s_partial ?st = 2 \<longrightarrow> s_completion_rate ?st = 75"
  proof
    assume h: "s_total ?st = 4 \<and> s_done ?st = 2 \<and> s_partial ?st = 2"
    then have "?t = 4" "count_status ''done'' ?cs = 2" "count_status ''partial'' ?cs = 2"
      by simp_all
    then have "s_completion_rate ?st =
       py_round1 (float_mul
         (to_double (float_add (float_of_int 2) (float_mul (float_of_int 2) (1 / 2)) / float_of_int 4))
         (float_of_int 100))"
      by (simp only: stats.simps)
    then show "s_completion_rate ?st = 75" by (simp only: rate_example)
  qed
  have "get_stats s start_date end_date = Inr ?st \<and>
     s_total ?st = int (length ?cs) \<and>
     s_done ?st = count_status ''done'' ?cs \<and>
     s_missed ?st = count_status ''missed'' ?cs \<and>
     s_partial ?st = count_status ''partial'' ?cs \<and>
     s_rescheduled ?st = count_status ''rescheduled'' ?cs \<and>
     (s_total ?st = 0 \<longrightarrow> s_completion_rate ?st = 0) \<and>
     (s_total ?st \<noteq> 0 \<longrightarrow>
        s_completion_rate ?st =
          py_round1 (float_mul
            (to_double (float_add (float_of_int (s_done ?st))
                          (float_mul (float_of_int (s_partial ?st)) (1 / 2))
                        / float_of_int (s_total ?st)))
            (float_of_int 100)))"
    using g t by simp
  moreover have "s_total ?st \<noteq> 0 \<and> s_total ?st < 2 ^ 52 \<longrightarrow>
        \<bar>s_completion_rate ?st
           - (of_int (s_done ?st) + of_int (s_partial ?st) / 2) / of_int (s_total ?st) * 100\<bar>
          \<le> 1 / 20 + 1 / 2 ^ 44"
    using rate_accuracy [OF count_status_nonneg count_status_nonneg count_done_partial t]
    by simp
  moreover have "\<exists>k. s_completion_rate ?st = to_double (of_int k / 10)"
    by (auto simp: py_round1_def)
  ultimately show ?thesis using ex by blast
qed

lemma date_le_fields:
  "date_le a b \<longleftrightarrow>
     year a < year b \<or>
     year a = year b \<and> (month a < month b \<or> month a = month b \<and> day a \<le> day b)"
  by (auto simp: date_le_def date_key_def less_eq_prod_def)

text \<open>
  C6. For every date range \<open>get_stats\<close> returns, without raising: the number of
  completion records whose date is within the range in calendar order (by year, then
  month, then day), both ends included; the numbers of those records with status
  \<open>done\<close>, \<open>missed\<close>, \<open>partial\<close> and \<open>rescheduled\<close>; and the completion rate, which
  is 0 when there is no record and otherwise
  \<open>round(((done + partial * 0.5) / total) * 100, 1)\<close> in double arithmetic. That
  rate is the double nearest to a number of tenths and, for fewer than \<open>2 ^ 52\<close> records,
  lies within \<open>1 / 20 + 2 ^ -44\<close> of the exact \<open>(done + partial / 2) / total * 100\<close>:
  it is that value rounded to one decimal. With 4 records, 2 done and 2 partial, the
  rate is 75.
\<close>

theorem get_stats_counts_and_rate:
  "let on_or_before =
         (\<lambda>a b. year a < year b \<or>
                year a = year b \<and> (month a < month b \<or> month a = month b \<and> day a \<le> day b));
       records =
         filter (\<lambda>c. on_or_before start_date (c_date c) \<and> on_or_before (c_date c) end_date)
           (completions s)
   in \<exists>st. get_stats s start_date end_date = Inr st \<and>
        s_total st = int (length records) \<and>
        s_done st = int (length (filter (\<lambda>c. c_status c = ''done'') records)) \<and>
        s_missed st = int (length (filter (\<lambda>c. c_status c = ''missed'') records)) \<and>
        s_partial st = int (length (filter (\<lambda>c. c_status c = ''partial'') records)) \<and>
        s_rescheduled st = int (length (filter (\<lambda>c. c_status c = ''rescheduled'') records)) \<and>
        (s_total st = 0 \<longrightarrow> s_completion_rate st = 0) \<and>
        (s_total st \<noteq> 0 \<longrightarrow>
           s_completion_rate st =
             py_round1 (float_mul
               (to_double (float_add (float_of_int (s_done st))
                             (float_mul (float_of_int (s_partial st)) (1 / 2))
                           / float_of_int (s_total st)))
               (float_of_int 100))) \<and>
        (s_total st \<noteq> 0 \<and> s_total st < 2 ^ 52 \<longrightarrow>
           \<bar>s_completion_rate st
              - (of_int (s_done st) + of_int (s_partial st) / 2) / of_int (s_total st) * 100\<bar>
             \<le> 1 / 20 + 1 / 2 ^ 44) \<and>
        (\<exists>k. s_completion_rate st = to_double (of_int k / 10)) \<and>
        (s_total st = 4 \<and> s_done st = 2 \<and> s_partial st = 2 \<longrightarrow> s_completion_rate st = 75)"
proof -
  have r: "filter (\<lambda>c. (year start_date < year (c_date c) \<or>
                        year start_date = year (c_date c) \<and>
                        (month start_date < month (c_date c) \<or>
                         month start_date = month (c_date c) \<and> day start_date \<le> day (c_date c))) \<and>
                       (year (c_date c) < year end_date \<or>
                        year (c_date c) = year end_date \<and>
                        (month (c_date c) < month end_date \<or>
                         month (c_date c) = month end_date \<and> day (c_date c) \<le> day end_date)))
             (completions s) = in_range s start_date end_date"
    unfolding in_range_def by (rule filter_cong) (auto simp: date_le_fields)
  show ?thesis
    unfolding Let_def r
    using get_stats_result [of s start_date end_date]
    by (simp only: count_status_def)
qed

theorem get_stats_counts_and_rate_witness:
  "get_stats sample_week (ymd 2024 3 1) (ymd 2024 3 7) =
     Inr \<lparr>s_total = 4, s_done = 2, s_missed = 0, s_partial = 2, s_rescheduled = 0,
          s_completion_rate = 75\<rparr> \<and>
   get_stats sample_db (ymd 2024 3 1) (ymd 2024 3 7) =
     Inr \<lparr>s_total = 0, s_done = 0, s_missed = 0, s_partial = 0, s_rescheduled = 0,
          s_completion_rate = 0\<rparr>"
proof -
  obtain st where g: "get_stats sample_week (ymd 2024 3 1) (ymd 2024 3 7) = Inr st"
    and f: "s_total st = 4" "s_done st = 2" "s_missed st = 0" "s_partial st = 2"
      "s_rescheduled st = 0"
    and e: "s_total st = 4 \<and> s_done st = 2 \<and> s_partial st = 2 \<longrightarrow> s_completion_rate st = 75"
    using get_stats_counts_and_rate [of "ymd 2024 3 1" "ymd 2024 3 7" sample_week]
    by (auto simp: Let_def sample_week_def sample_ledger_def sample_done_def sample_db_def ymd_def)
  have "s_completion_rate st = 75" using e f by simp
  then have "st = \<lparr>s_total = 4, s_done = 2, s_missed = 0, s_partial = 2, s_rescheduled = 0,
          s_completion_rate = 75\<rparr>"
    using f by (cases st) simp
  then have 1: "get_stats sample_week (ymd 2024 3 1) (ymd 2024 3 7) =
     Inr \<lparr>s_total = 4, s_done = 2, s_missed = 0, s_partial = 2, s_rescheduled = 0,
          s_completion_rate = 75\<rparr>"
    using g by simp
  obtain st0 where g0: "get_stats sample_db (ymd 2024 3 1) (ymd 2024 3 7) = Inr st0"
    and f0: "s_total st0 = 0" "s_done st0 = 0" "s_missed st0 = 0" "s_partial st0 = 0"
      "s_rescheduled st0 = 0"
    and e0: "s_total st0 = 0 \<longrightarrow> s_completion_rate st0 = 0"
    using get_stats_counts_and_rate [of "ymd 2024 3 1" "ymd 2024 3 7" sample_db]
    by (auto simp: Let_def sample_db_def)
  have "st0 = \<lparr>s_total = 0, s_done = 0, s_missed = 0, s_partial = 0, s_rescheduled = 0,
          s_completion_rate = 0\<rparr>"
    using f0 e0 by (cases st0) simp
  then have 2: "get_stats sample_db (ymd 2024 3 1) (ymd 2024 3 7) =
     Inr \<lparr>s_total = 0, s_done = 0, s_missed = 0, s_partial = 0, s_rescheduled = 0,
          s_completion_rate = 0\<rparr>"
    using g0 by simp
  from 1 2 show ?thesis by blast
qed

end
